theory Spec2Isabelle
  imports Main "HOL-Library.Sublist" "HOL-Library.AList"
begin

section \<open>The document: a tree of elements and text\<close>

text \<open>
  The script reads and writes the browser's document. The document is modelled as a tree:
  an element carries its tag, its id (\<open>''''\<close> when it has none), its class list, its other
  attributes (\<open>data-*\<close>, \<open>title\<close>, \<open>href\<close>, and the current \<open>value\<close> of an input) and
  the \<open>display\<close> of its inline style (\<open>''''\<close> when unset); a text node carries its text.
  An element is addressed by its path from the root: the list of child indices.
\<close>

type_synonym path = "nat list"

record elem =
  tag :: string
  eid :: string
  classes :: "string list"
  attrs :: "(string \<times> string) list"
  display :: string

datatype node = Element elem "node list" | Text string

primrec node_at :: "node \<Rightarrow> path \<Rightarrow> node option" where
  "node_at n [] = Some n"
| "node_at n (i # p) =
     (case n of
        Text s \<Rightarrow> None
      | Element e cs \<Rightarrow> if i < length cs then node_at (cs ! i) p else None)"

definition elem_at :: "node \<Rightarrow> path \<Rightarrow> elem option" where
  "elem_at n p = (case node_at n p of Some (Element e cs) \<Rightarrow> Some e | _ \<Rightarrow> None)"

definition children_at :: "node \<Rightarrow> path \<Rightarrow> node list option" where
  "children_at n p = (case node_at n p of Some (Element e cs) \<Rightarrow> Some cs | _ \<Rightarrow> None)"

primrec update_at :: "path \<Rightarrow> (node \<Rightarrow> node) \<Rightarrow> node \<Rightarrow> node" where
  "update_at [] f n = f n"
| "update_at (i # p) f n =
     (case n of
        Text s \<Rightarrow> n
      | Element e cs \<Rightarrow>
          if i < length cs then Element e (cs[i := update_at p f (cs ! i)]) else n)"

text \<open>Changing an element's own fields (style, dataset) leaves its children in place.\<close>

definition update_elem :: "path \<Rightarrow> (elem \<Rightarrow> elem) \<Rightarrow> node \<Rightarrow> node" where
  "update_elem p f = update_at p (\<lambda>n. case n of Element e cs \<Rightarrow> Element (f e) cs | Text s \<Rightarrow> n)"

text \<open>Assigning \<open>innerHTML\<close> or \<open>textContent\<close> replaces the element's children.\<close>

definition set_children :: "path \<Rightarrow> node list \<Rightarrow> node \<Rightarrow> node" where
  "set_children p cs' = update_at p (\<lambda>n. case n of Element e cs \<Rightarrow> Element e cs' | Text s \<Rightarrow> n)"

text \<open>All nodes in document order (pre-order), as paths.\<close>

fun paths :: "node \<Rightarrow> path list" and paths_list :: "nat \<Rightarrow> node list \<Rightarrow> path list" where
  "paths (Text s) = [[]]"
| "paths (Element e cs) = [] # paths_list 0 cs"
| "paths_list i [] = []"
| "paths_list i (c # cs) = map ((#) i) (paths c) @ paths_list (Suc i) cs"

definition text_at :: "node \<Rightarrow> path \<Rightarrow> string option" where
  "text_at n p = (case node_at n p of Some (Text s) \<Rightarrow> Some s | _ \<Rightarrow> None)"

subsection \<open>Reading the document\<close>

text \<open>\<open>element.matches('.c')\<close>: the element at \<open>p\<close> has class \<open>c\<close>.\<close>

definition matches :: "node \<Rightarrow> string \<Rightarrow> path \<Rightarrow> bool" where
  "matches n c p = (case elem_at n p of Some e \<Rightarrow> c \<in> set (classes e) | None \<Rightarrow> False)"

text \<open>\<open>document.getElementById(i)\<close>: the first element in document order whose id is \<open>i\<close>;
  no element has the empty id.\<close>

definition getElementById :: "string \<Rightarrow> node \<Rightarrow> path option" where
  "getElementById i n =
     (if i = [] then None
      else find (\<lambda>p. case elem_at n p of Some e \<Rightarrow> eid e = i | None \<Rightarrow> False) (paths n))"

text \<open>\<open>document.querySelectorAll('.c')\<close>: every element of class \<open>c\<close>, in document order.\<close>

definition querySelectorAll :: "string \<Rightarrow> node \<Rightarrow> path list" where
  "querySelectorAll c n = filter (matches n c) (paths n)"

text \<open>\<open>element.closest('.c')\<close>: the element itself or its nearest ancestor of class \<open>c\<close>.\<close>

definition closest :: "node \<Rightarrow> string \<Rightarrow> path \<Rightarrow> path option" where
  "closest n c p = find (matches n c) (rev (prefixes p))"

text \<open>\<open>element.querySelector(sel)\<close>: the first descendant of the element at \<open>t\<close>, in document
  order, that satisfies the selector; the element itself is not a candidate.\<close>

definition querySelector_in :: "node \<Rightarrow> path \<Rightarrow> (node \<Rightarrow> path \<Rightarrow> bool) \<Rightarrow> path option" where
  "querySelector_in n t sel =
     (case node_at n t of
        None \<Rightarrow> None
      | Some sub \<Rightarrow> map_option ((@) t) (find (\<lambda>q. q \<noteq> [] \<and> sel n (t @ q)) (paths sub)))"

text \<open>The selector \<open>span:first-child\<close>: a \<open>span\<close> with no element before it among its
  parent's children (text nodes do not count).\<close>

fun is_Text :: "node \<Rightarrow> bool" where
  "is_Text (Text s) = True"
| "is_Text (Element e cs) = False"

definition span_first_child :: "node \<Rightarrow> path \<Rightarrow> bool" where
  "span_first_child n q =
     (q \<noteq> [] \<and>
      (case elem_at n q of None \<Rightarrow> False | Some e \<Rightarrow> tag e = ''span'') \<and>
      (case children_at n (butlast q) of
         None \<Rightarrow> False
       | Some cs \<Rightarrow> list_all is_Text (take (last q) cs)))"

text \<open>The selector \<open>.date-filter-toggle .toggle-icon\<close>: an element of class \<open>toggle-icon\<close>
  with a proper ancestor of class \<open>date-filter-toggle\<close>.\<close>

definition toggle_icon_sel :: "node \<Rightarrow> path \<Rightarrow> bool" where
  "toggle_icon_sel n q =
     (matches n ''toggle-icon'' q \<and> list_ex (matches n ''date-filter-toggle'') (butlast (prefixes q)))"

text \<open>\<open>node.textContent\<close>: the text of all text nodes below, in document order.\<close>

fun textContent :: "node \<Rightarrow> string" where
  "textContent (Text s) = s"
| "textContent (Element e cs) = concat (map textContent cs)"

text \<open>\<open>element.dataset\<close> and \<open>input.value\<close> read the attribute list; a missing entry is
  JavaScript's \<open>undefined\<close>. A string is truthy when it is present and not empty.\<close>

definition attr_at :: "node \<Rightarrow> path \<Rightarrow> string \<Rightarrow> string option" where
  "attr_at n p k = (case elem_at n p of Some e \<Rightarrow> map_of (attrs e) k | None \<Rightarrow> None)"

definition display_at :: "node \<Rightarrow> path \<Rightarrow> string option" where
  "display_at n p = map_option display (elem_at n p)"

fun truthy :: "string option \<Rightarrow> bool" where
  "truthy None = False"
| "truthy (Some s) = (s \<noteq> [])"

subsection \<open>Writing the document\<close>

definition set_display :: "path \<Rightarrow> string \<Rightarrow> node \<Rightarrow> node" where
  "set_display p v = update_elem p (\<lambda>e. e\<lparr>display := v\<rparr>)"

definition set_attr :: "path \<Rightarrow> string \<Rightarrow> string \<Rightarrow> node \<Rightarrow> node" where
  "set_attr p k v = update_elem p (\<lambda>e. e\<lparr>attrs := AList.update k v (attrs e)\<rparr>)"

section \<open>What the handlers do besides changing the document\<close>

datatype json = JString string | JObject "(string \<times> json) list"

record request =
  http_method :: string
  url :: string
  headers :: "(string \<times> string) list"
  body :: "json option"

text \<open>The errors the handlers raise or receive: \<open>new Error(`HTTP error! Status: ...`)\<close> with
  the status, \<open>new Error(data.message || default)\<close> with its message, a rejected \<open>fetch\<close>,
  a rejected \<open>response.json()\<close>, and the \<open>TypeError\<close> of a property read on \<open>null\<close>.\<close>

datatype js_error = HttpError nat | AppError string | FetchRejected | JsonRejected | TypeError

datatype effect =
    StopPropagation
  | PreventDefault
  | Fetch request
  | ConsoleError string js_error
  | Alert string
  | Uncaught js_error

record page =
  doc :: node
  effects :: "effect list"

definition emit :: "effect \<Rightarrow> page \<Rightarrow> page" where
  "emit x pg = pg\<lparr>effects := effects pg @ [x]\<rparr>"

text \<open>A handler either runs to its end or is suspended at its \<open>await fetch(...)\<close>, holding
  what its continuation needs.\<close>

datatype 'k outcome = Done page | Await page 'k

fun outcome_page :: "'k outcome \<Rightarrow> page" where
  "outcome_page (Done pg) = pg"
| "outcome_page (Await pg w) = pg"

fun suspended :: "'k outcome \<Rightarrow> 'k option" where
  "suspended (Done pg) = None"
| "suspended (Await pg w) = Some w"

subsection \<open>Server responses\<close>

record collection =
  cid :: string
  cname :: string
  contains :: bool

text \<open>The parsed body: \<open>status\<close> (an absent or non-string status is any string other than
  \<open>''ok''\<close>), the optional \<open>message\<close> and the optional \<open>collections\<close> array.\<close>

record reply =
  status :: string
  message :: "string option"
  collections :: "collection list option"

text \<open>\<open>BadJson\<close>: \<open>response.json()\<close> rejects.\<close>

datatype payload = BadJson | Json reply

datatype response = NetworkError | Http bool nat payload

text \<open>The common head of both \<open>try\<close> blocks: \<open>await fetch\<close>, the \<open>response.ok\<close> check and
  \<open>await response.json()\<close>.\<close>

fun await_json :: "response \<Rightarrow> js_error + reply" where
  "await_json NetworkError = Inl FetchRejected"
| "await_json (Http ok st pl) =
     (if \<not> ok then Inl (HttpError st)
      else case pl of BadJson \<Rightarrow> Inl JsonRejected | Json data \<Rightarrow> Inr data)"


text \<open>\<open>data.message || d\<close>.\<close>

definition or_default :: "string option \<Rightarrow> string \<Rightarrow> string" where
  "or_default m d = (case m of None \<Rightarrow> d | Some s \<Rightarrow> if s \<noteq> [] then s else d)"

section \<open>toggleDateFilters\<close>

text \<open>\<open>document.querySelector\<close> searches below the root here: the root has no ancestor, so
  the selector cannot pick it.\<close>

definition toggleDateFilters :: "page \<Rightarrow> page" where
  "toggleDateFilters pg =
     (let content = getElementById ''date-filter-content'' (doc pg);
          icon = querySelector_in (doc pg) [] toggle_icon_sel
      in case content of
           None \<Rightarrow> emit (Uncaught TypeError) pg
         | Some c \<Rightarrow>
             if display_at (doc pg) c = Some ''none'' \<or> display_at (doc pg) c = Some '''' then
               (let pg1 = pg\<lparr>doc := set_display c ''block'' (doc pg)\<rparr>
                in case icon of
                     None \<Rightarrow> emit (Uncaught TypeError) pg1
                   | Some i \<Rightarrow> pg1\<lparr>doc := set_children i [Text ''-''] (doc pg1)\<rparr>)
             else
               (let pg1 = pg\<lparr>doc := set_display c ''none'' (doc pg)\<rparr>
                in case icon of
                     None \<Rightarrow> emit (Uncaught TypeError) pg1
                   | Some i \<Rightarrow> pg1\<lparr>doc := set_children i [Text ''+''] (doc pg1)\<rparr>))"

section \<open>toggleCollectionsMenu\<close>

text \<open>\<open>menuId.split('-')\<close>; the result is never empty, so \<open>pop()\<close> is its last element.\<close>

fun split_str :: "char \<Rightarrow> string \<Rightarrow> string list" where
  "split_str sep [] = [[]]"
| "split_str sep (c # cs) =
     (if c = sep then [] # split_str sep cs
      else case split_str sep cs of
             w # ws \<Rightarrow> (c # w) # ws
           | [] \<Rightarrow> [[c]])"

text \<open>The \<open>forEach\<close> over \<open>querySelectorAll('.collections-menu')\<close> that hides every menu whose
  id is not \<open>menuId\<close>.\<close>

definition hide_others :: "string \<Rightarrow> node \<Rightarrow> node" where
  "hide_others menuId d =
     fold (\<lambda>menu d'. if map_option eid (elem_at d' menu) \<noteq> Some menuId
                      then set_display menu ''none'' d' else d')
          (querySelectorAll ''collections-menu'' d) d"

text \<open>
  The script assigns markup to \<open>innerHTML\<close> three ways. The placeholder and the error
  message are constants: they are written here as the nodes they spell. The collections
  and the swapped button are template literals with values pasted in unescaped: they are
  the text the script builds, and the nodes are whatever the browser's parser makes of
  that text. The parser is not part of the script, so the handlers take it as their
  first argument \<open>parse\<close>: the function from the markup to the children it gives an
  element such as the content div of a menu or the span around a button.
\<close>

definition el :: "string \<Rightarrow> string list \<Rightarrow> (string \<times> string) list \<Rightarrow> node list \<Rightarrow> node" where
  "el t cl as cs = Element \<lparr>tag = t, eid = [], classes = cl, attrs = as, display = []\<rparr> cs"

definition error_text :: string where
  \<open>error_text = ''<div class="error-message">Error loading.</div>''\<close>

definition error_html :: "node list" where
  "error_html = [el ''div'' [''error-message''] [] [Text ''Error loading.'']]"

text \<open>\<open>buttonHtml\<close> (lines 50 to 52) and \<open>newButton\<close> (lines 108 to 110): the remove
  variant when \<open>c.contains\<close>, respectively when \<open>action === 'add'\<close>.\<close>

definition button_text :: "bool \<Rightarrow> string \<Rightarrow> string \<Rightarrow> string \<Rightarrow> string" where
  \<open>button_text remove collectionId articleId name =
     (if remove
      then ''<button class="btn btn-clear btn-remove-from-collection" data-collection-id="'' @
           collectionId @ ''" data-article-id="'' @ articleId @ ''" title="Remove from '' @ name @
           ''"><i class="fas fa-minus"></i></button>''
      else ''<button class="btn btn-filter btn-add-to-collection" data-collection-id="'' @
           collectionId @ ''" data-article-id="'' @ articleId @ ''" title="Add to '' @ name @
           ''"><i class="fas fa-plus"></i></button>'')\<close>

text \<open>What one round of the \<open>forEach\<close> adds to \<open>collectionEntriesHtml\<close> (line 53).\<close>

definition entry_text :: "string \<Rightarrow> collection \<Rightarrow> string" where
  \<open>entry_text articleId c =
     (let buttonHtml = button_text (contains c) (cid c) articleId (cname c)
      in ''<div class="collection-entry" data-collection-id="'' @ cid c @ ''"><span>'' @ cname c @
         ''</span><span class="collection-action-button">'' @ buttonHtml @ ''</span></div>'')\<close>

text \<open>\<open>data.collections && data.collections.length > 0\<close>.\<close>

fun nonempty :: "'a list option \<Rightarrow> bool" where
  "nonempty None = False"
| "nonempty (Some l) = (length l > 0)"

text \<open>\<open>html\<close> (lines 46 to 59).\<close>

definition collections_text :: "string \<Rightarrow> collection list option \<Rightarrow> string" where
  \<open>collections_text articleId cs =
     (if nonempty cs then
        (let collectionEntriesHtml =
               fold (\<lambda>c entries. entries @ entry_text articleId c)
                 (case cs of None \<Rightarrow> [] | Some l \<Rightarrow> l) []
         in [] @ (''<div class="collections-list-container">'' @ collectionEntriesHtml @ ''</div>'') @
            ''<div class="collections-menu-footer"><a href="/collections"><i class="fas fa-cog"></i> Manage Collections</a></div>'')
      else ''<div>No collections yet. <a href="/collections">Create one</a>.</div>'')\<close>

text \<open>What the suspended handler holds: \<open>contentDiv\<close> and \<open>articleId\<close>.\<close>

record load_wait =
  contentDiv :: path
  lw_articleId :: string

definition status_url :: "string \<Rightarrow> string" where
  "status_url articleId = ''/article/'' @ articleId @ ''/collections_status''"

definition get_request :: "string \<Rightarrow> request" where
  "get_request u = \<lparr>http_method = ''GET'', url = u, headers = [], body = None\<rparr>"

text \<open>Lines 14 to 41: up to the \<open>await\<close>.\<close>

definition toggleCollectionsMenu :: "string \<Rightarrow> page \<Rightarrow> load_wait outcome" where
  "toggleCollectionsMenu menuId pg0 =
     (let pg = emit StopPropagation pg0;
          targetMenu = getElementById menuId (doc pg);
          pg1 = pg\<lparr>doc := hide_others menuId (doc pg)\<rparr>
      in case targetMenu of
           None \<Rightarrow> Done (emit (Uncaught TypeError) pg1)
         | Some t \<Rightarrow>
             if display_at (doc pg1) t = Some ''block'' then
               Done (pg1\<lparr>doc := set_display t ''none'' (doc pg1)\<rparr>)
             else
               (let pg2 = pg1\<lparr>doc := set_display t ''block'' (doc pg1)\<rparr>
                in case querySelector_in (doc pg2) t (\<lambda>n. matches n ''collections-menu-content'') of
                     None \<Rightarrow> Done (emit (Uncaught TypeError) pg2)
                   | Some c \<Rightarrow>
                       if truthy (attr_at (doc pg2) c ''data-loaded'') then Done pg2
                       else
                         (let articleId = last (split_str CHR ''-'' menuId);
                              pg3 = pg2\<lparr>doc := set_children c [Text ''Loading...''] (doc pg2)\<rparr>
                          in Await (emit (Fetch (get_request (status_url articleId))) pg3)
                                   \<lparr>contentDiv = c, lw_articleId = articleId\<rparr>)))"

text \<open>Lines 42 to 68: from the response on. \<open>c\<close> is where \<open>contentDiv\<close> is in the document
  when the response arrives.\<close>

definition toggleCollectionsMenu_resume ::
  "(string \<Rightarrow> node list) \<Rightarrow> load_wait \<Rightarrow> response \<Rightarrow> page \<Rightarrow> page" where
  "toggleCollectionsMenu_resume parse w r pg =
     (let c = contentDiv w; articleId = lw_articleId w;
          attempt =
            (case await_json r of
               Inl err \<Rightarrow> Inl err
             | Inr data \<Rightarrow>
                 if status data = ''ok'' then
                   Inr (set_attr c ''data-loaded'' ''true''
                          (set_children c (parse (collections_text articleId (collections data)))
                             (doc pg)))
                 else Inl (AppError (or_default (message data) ''Failed to load collections.'')))
      in case attempt of
           Inr d \<Rightarrow> pg\<lparr>doc := d\<rparr>
         | Inl err \<Rightarrow>
             (emit (ConsoleError ''Error fetching collections:'' err) pg)
               \<lparr>doc := set_children c error_html (doc pg)\<rparr>)"

section \<open>The DOMContentLoaded handler and the global click listener\<close>

definition domContentLoaded :: "page \<Rightarrow> page" where
  "domContentLoaded pg =
     (let startDateEl = getElementById ''start_date'' (doc pg);
          endDateEl = getElementById ''end_date'' (doc pg)
      in case startDateEl of
           None \<Rightarrow> pg
         | Some s \<Rightarrow>
             (case endDateEl of
                None \<Rightarrow> pg
              | Some e \<Rightarrow>
                  if truthy (attr_at (doc pg) s ''value'') \<or> truthy (attr_at (doc pg) e ''value'')
                  then toggleDateFilters pg else pg))"

datatype action = Add | Remove

fun action_name :: "action \<Rightarrow> string" where
  "action_name Add = ''add''"
| "action_name Remove = ''remove''"

text \<open>A template literal prints \<open>undefined\<close> as the word.\<close>

fun interpolate :: "string option \<Rightarrow> string" where
  "interpolate None = ''undefined''"
| "interpolate (Some s) = s"

definition action_url :: "string option \<Rightarrow> action \<Rightarrow> string" where
  "action_url collectionId a =
     ''/collection/'' @ interpolate collectionId @ ''/'' @ action_name a @ ''_article''"

text \<open>\<open>JSON.stringify({ article_id: articleId })\<close> leaves out an undefined property.\<close>

definition post_request :: "string \<Rightarrow> string option \<Rightarrow> request" where
  "post_request u articleId =
     \<lparr>http_method = ''POST'', url = u,
      headers = [(''Content-Type'', ''application/json''), (''X-Requested-With'', ''XMLHttpRequest'')],
      body = Some (JObject (case articleId of None \<Rightarrow> [] | Some a \<Rightarrow> [(''article_id'', JString a)]))\<rparr>"

text \<open>What the suspended listener holds: \<open>target\<close>, \<open>action\<close>, \<open>collectionId\<close>, \<open>articleId\<close>.\<close>

record action_wait =
  target :: path
  aw_action :: action
  collectionId :: "string option"
  aw_articleId :: "string option"

text \<open>The \<open>forEach\<close> of lines 124 to 126 that hides every menu.\<close>

definition hide_all :: "node \<Rightarrow> node" where
  "hide_all d = fold (\<lambda>menu d'. set_display menu ''none'' d') (querySelectorAll ''collections-menu'' d) d"

text \<open>Lines 83 to 100 and 122 to 127: up to the \<open>await\<close>, or the whole listener when the
  target is no action button.\<close>

definition click_listener :: "path \<Rightarrow> page \<Rightarrow> action_wait outcome" where
  "click_listener tgt pg =
     (let action0 = None;
          action1 = (if matches (doc pg) ''btn-add-to-collection'' tgt then Some Add else action0);
          action2 = (if matches (doc pg) ''btn-remove-from-collection'' tgt then Some Remove else action1)
      in case action2 of
           Some a \<Rightarrow>
             (let pg1 = emit PreventDefault pg;
                  cId = attr_at (doc pg1) tgt ''data-collection-id'';
                  aId = attr_at (doc pg1) tgt ''data-article-id'';
                  u = action_url cId a
              in Await (emit (Fetch (post_request u aId)) pg1)
                       \<lparr>target = tgt, aw_action = a, collectionId = cId, aw_articleId = aId\<rparr>)
         | None \<Rightarrow>
             if closest (doc pg) ''collections-menu'' tgt = None
             then Done (pg\<lparr>doc := hide_all (doc pg)\<rparr>)
             else Done pg)"

text \<open>Lines 101 to 121: from the response on. \<open>target w\<close> is where the clicked button is when
  the response arrives.\<close>

definition click_listener_resume ::
  "(string \<Rightarrow> node list) \<Rightarrow> action_wait \<Rightarrow> response \<Rightarrow> page \<Rightarrow> page" where
  "click_listener_resume parse w r pg =
     (let a = aw_action w;
          attempt =
            (case await_json r of
               Inl err \<Rightarrow> Inl err
             | Inr data \<Rightarrow>
                 if status data = ''ok'' then
                   (case closest (doc pg) ''collection-action-button'' (target w) of
                      None \<Rightarrow> Inr (doc pg)
                    | Some buttonContainer \<Rightarrow>
                        (let collectionEntry = closest (doc pg) ''collection-entry'' buttonContainer;
                             collectionName =
                               (case collectionEntry of
                                  None \<Rightarrow> Inr []
                                | Some ce \<Rightarrow>
                                    (case querySelector_in (doc pg) ce span_first_child of
                                       None \<Rightarrow> Inl TypeError
                                     | Some sp \<Rightarrow>
                                         (case node_at (doc pg) sp of
                                            None \<Rightarrow> Inl TypeError
                                          | Some n \<Rightarrow> Inr (textContent n))))
                         in case collectionName of
                              Inl err \<Rightarrow> Inl err
                            | Inr name \<Rightarrow>
                                (let newButton =
                                       button_text (a = Add) (interpolate (collectionId w))
                                         (interpolate (aw_articleId w)) name
                                 in Inr (set_children buttonContainer (parse newButton) (doc pg)))))
                 else Inl (AppError (or_default (message data) ''Action failed.'')))
      in case attempt of
           Inr d \<Rightarrow> pg\<lparr>doc := d\<rparr>
         | Inl err \<Rightarrow>
             emit (Alert (''Failed to '' @ action_name a @ '' article.''))
               (emit (ConsoleError (''Error with '' @ action_name a @ '' action:'') err) pg))"

section \<open>The page as a sequence of events\<close>

text \<open>
  The handlers run one at a time, each to its end or to its \<open>await\<close>; a suspended handler
  resumes when its response arrives, and other handlers may have run in between. The
  button of a menu calls \<open>toggleCollectionsMenu\<close>, whose \<open>stopPropagation\<close> keeps the click from
  the document's listener; every other click reaches the listener alone.

  A suspended handler holds a reference to an element, not a path. Assigning \<open>innerHTML\<close>
  detaches the old children, so when the response arrives the element is either still in
  the document or in a detached tree, where changes are not visible. The arriving event
  says which, so the runs of the model include every run of the page.
\<close>

datatype wait = LoadWait load_wait | ActionWait action_wait



record system =
  page :: page
  waiting :: "wait option list"





text \<open>The menus that are shown.\<close>

definition visible_menu :: "node \<Rightarrow> path \<Rightarrow> bool" where
  "visible_menu d p = (matches d ''collections-menu'' p \<and> display_at d p = Some ''block'')"




text \<open>Two documents that differ at most in \<open>display\<close> values have the same erasure.\<close>

fun strip :: "node \<Rightarrow> node" where
  "strip (Text s) = Text s"
| "strip (Element e cs) = Element (e\<lparr>display := []\<rparr>) (map strip cs)"


text \<open>A fragment with no element of class \<open>c\<close>.\<close>

fun class_free :: "string \<Rightarrow> node \<Rightarrow> bool" where
  "class_free c (Text s) = True"
| "class_free c (Element e cs) = (c \<notin> set (classes e) \<and> list_all (class_free c) cs)"

section \<open>What the browser makes of the templates\<close>

text \<open>
  The elements the two templates spell. The browser builds exactly these when the
  pasted values leave the markup as the script meant it: a double quote ends an attribute
  value, \<open><\<close> opens a tag in text, \<open>&\<close> starts a character reference, and the parser
  drops NUL and turns CR into a line feed. A value without those characters is read back
  as it is.
\<close>

definition text_nodes :: "string \<Rightarrow> node list" where
  "text_nodes s = (if s = [] then [] else [Text s])"

definition remove_button_node :: "string \<Rightarrow> string \<Rightarrow> string \<Rightarrow> node" where
  "remove_button_node cId aId name =
     el ''button'' [''btn'', ''btn-clear'', ''btn-remove-from-collection'']
        [(''data-collection-id'', cId), (''data-article-id'', aId),
         (''title'', ''Remove from '' @ name)]
        [el ''i'' [''fas'', ''fa-minus''] [] []]"

definition add_button_node :: "string \<Rightarrow> string \<Rightarrow> string \<Rightarrow> node" where
  "add_button_node cId aId name =
     el ''button'' [''btn'', ''btn-filter'', ''btn-add-to-collection'']
        [(''data-collection-id'', cId), (''data-article-id'', aId),
         (''title'', ''Add to '' @ name)]
        [el ''i'' [''fas'', ''fa-plus''] [] []]"

definition button_node :: "bool \<Rightarrow> string \<Rightarrow> string \<Rightarrow> string \<Rightarrow> node" where
  "button_node remove cId aId name =
     (if remove then remove_button_node cId aId name
      else add_button_node cId aId name)"

definition entry_node :: "string \<Rightarrow> collection \<Rightarrow> node" where
  "entry_node articleId c =
     el ''div'' [''collection-entry''] [(''data-collection-id'', cid c)]
       [el ''span'' [] [] (text_nodes (cname c)),
        el ''span'' [''collection-action-button''] []
          [button_node (contains c) (cid c) articleId (cname c)]]"

definition collections_nodes :: "string \<Rightarrow> collection list option \<Rightarrow> node list" where
  "collections_nodes articleId cs =
     (if nonempty cs then
        [el ''div'' [''collections-list-container''] []
           (map (entry_node articleId) (case cs of None \<Rightarrow> [] | Some l \<Rightarrow> l)),
         el ''div'' [''collections-menu-footer''] []
           [el ''a'' [] [(''href'', ''/collections'')]
              [el ''i'' [''fas'', ''fa-cog''] [] [], Text '' Manage Collections'']]]
      else
        [el ''div'' [] []
           [Text ''No collections yet. '',
            el ''a'' [] [(''href'', ''/collections'')] [Text ''Create one''],
            Text ''.'']])"

text \<open>The characters that the model of the parser below does not read anywhere: NUL, CR
  and \<open>&\<close>.\<close>

definition unread :: "char \<Rightarrow> bool" where
  "unread c = (c = CHR 0x00 \<or> c = CHR 0x0D \<or> c = CHR ''&'')"

text \<open>A value that is read back as it is inside a double-quoted attribute value, and one
  that is read back as it is as the text of an element.\<close>

definition value_safe :: "string \<Rightarrow> bool" where
  \<open>value_safe s = list_all (\<lambda>c. \<not> unread c \<and> c \<noteq> CHR ''"'') s\<close>

definition text_safe :: "string \<Rightarrow> bool" where
  "text_safe s = list_all (\<lambda>c. \<not> unread c \<and> c \<noteq> CHR ''<'') s"

text \<open>The id of an entry is pasted into attribute values; its name into an attribute value
  (the title) and into the text of the first span.\<close>

definition safe_collection :: "collection \<Rightarrow> bool" where
  "safe_collection c = (value_safe (cid c) \<and> value_safe (cname c) \<and> text_safe (cname c))"

definition safe_collections :: "collection list option \<Rightarrow> bool" where
  "safe_collections cs = list_all safe_collection (case cs of None \<Rightarrow> [] | Some l \<Rightarrow> l)"

text \<open>What is asked of a parser: it reads the two templates, filled with such values, as
  the elements they spell.\<close>

definition reads_templates :: "(string \<Rightarrow> node list) \<Rightarrow> bool" where
  "reads_templates parse =
     ((\<forall>a cs. value_safe a \<and> safe_collections cs \<longrightarrow>
          parse (collections_text a cs) = collections_nodes a cs) \<and>
      (\<forall>r c a n. value_safe c \<and> value_safe a \<and> value_safe n \<longrightarrow>
          parse (button_text r c a n) = [button_node r c a n]))"

subsection \<open>A parser for the markup of the templates\<close>

text \<open>
  A model of the browser's fragment parser, after the tokenizer and the tree construction
  of the HTML standard, for the part of the language that the templates and the values
  used below need: text, start tags with attributes (double-quoted, unquoted or without a
  value) and end tags, for the elements \<open>div\<close>, \<open>span\<close>, \<open>i\<close>, \<open>a\<close> and \<open>button\<close>, properly
  nested. Everything else is not read (\<open>None\<close>): character references, NUL and CR,
  comments, upper-case names, single-quoted values, self-closing tags, other elements,
  an end tag that does not close the current element, an element left open at the end,
  an \<open>a\<close> inside an \<open>a\<close> and a \<open>button\<close> inside a \<open>button\<close>.

  The tokenizer is the state machine of the standard, one character a step; a state holds
  the text, the tag and the attribute read so far. The tree construction is that of the
  standard for content inside the body, with the element assigned to as the root.
\<close>

datatype token = StartTag string "(string \<times> string) list" | EndTag string | Chars string

datatype tag_token = Tag bool string "(string \<times> string) list"

datatype tstate =
    Data string
  | TagOpen
  | EndTagOpen
  | TagName bool string
  | BeforeAttrName tag_token
  | AttrName tag_token string
  | AfterAttrName tag_token string
  | BeforeAttrValue tag_token string
  | AttrValueQuoted tag_token string string
  | AttrValueUnquoted tag_token string string
  | AfterAttrValueQuoted tag_token

definition is_space :: "char \<Rightarrow> bool" where
  "is_space c = (c = CHR 0x09 \<or> c = CHR 0x0A \<or> c = CHR 0x0C \<or> c = CHR '' '')"

definition is_lower :: "char \<Rightarrow> bool" where
  "is_lower c = (c \<in> set ''abcdefghijklmnopqrstuvwxyz'')"

definition is_upper :: "char \<Rightarrow> bool" where
  "is_upper c = (c \<in> set ''ABCDEFGHIJKLMNOPQRSTUVWXYZ'')"

text \<open>An attribute whose name the tag already has is dropped; an end tag keeps no
  attributes.\<close>

fun add_attr :: "tag_token \<Rightarrow> string \<times> string \<Rightarrow> tag_token" where
  "add_attr (Tag e n as) (k, v) = Tag e n (if k \<in> set (map fst as) then as else as @ [(k, v)])"

fun emit_tag :: "tag_token \<Rightarrow> token" where
  "emit_tag (Tag e n as) = (if e then EndTag n else StartTag n as)"

text \<open>The attribute name state: white space, \<open>/\<close>, \<open>>\<close> and \<open>=\<close> end the name; every other
  character belongs to it, a quote or \<open><\<close> too.\<close>

definition attr_name_step :: "tag_token \<Rightarrow> string \<Rightarrow> char \<Rightarrow> (tstate \<times> token option) option" where
  "attr_name_step tg an c =
     (if is_space c then Some (AfterAttrName tg an, None)
      else if c = CHR ''/'' then None
      else if c = CHR ''>'' then Some (Data [], Some (emit_tag (add_attr tg (an, []))))
      else if c = CHR ''='' then Some (BeforeAttrValue tg an, None)
      else if is_upper c then None
      else Some (AttrName tg (an @ [c]), None))"

text \<open>The before attribute name state. The after attribute value (quoted) state goes on
  here too when the closing quote is followed by anything but white space, \<open>/\<close> or \<open>>\<close>.\<close>

definition before_attr_name_step :: "tag_token \<Rightarrow> char \<Rightarrow> (tstate \<times> token option) option" where
  "before_attr_name_step tg c =
     (if is_space c then Some (BeforeAttrName tg, None)
      else if c = CHR ''/'' \<or> c = CHR ''='' then None
      else if c = CHR ''>'' then Some (Data [], Some (emit_tag tg))
      else attr_name_step tg [] c)"

text \<open>The attribute value (unquoted) state: white space and \<open>>\<close> end the value.\<close>

definition unquoted_step :: "tag_token \<Rightarrow> string \<Rightarrow> string \<Rightarrow> char \<Rightarrow> (tstate \<times> token option) option" where
  "unquoted_step tg an v c =
     (if is_space c then Some (BeforeAttrName (add_attr tg (an, v)), None)
      else if c = CHR ''>'' then Some (Data [], Some (emit_tag (add_attr tg (an, v))))
      else Some (AttrValueUnquoted tg an (v @ [c]), None))"

text \<open>One character in one state: the next state and the token emitted, if any.\<close>

fun tstep :: "tstate \<Rightarrow> char \<Rightarrow> (tstate \<times> token option) option" where
  "tstep (Data txt) c =
     (if unread c then None
      else if c = CHR ''<'' then Some (TagOpen, if txt = [] then None else Some (Chars txt))
      else Some (Data (txt @ [c]), None))"
| "tstep TagOpen c =
     (if c = CHR ''/'' then Some (EndTagOpen, None)
      else if is_lower c then Some (TagName False [c], None)
      else None)"
| "tstep EndTagOpen c = (if is_lower c then Some (TagName True [c], None) else None)"
| "tstep (TagName e n) c =
     (if unread c then None
      else if is_space c then Some (BeforeAttrName (Tag e n []), None)
      else if c = CHR ''/'' then None
      else if c = CHR ''>'' then Some (Data [], Some (emit_tag (Tag e n [])))
      else if is_upper c then None
      else Some (TagName e (n @ [c]), None))"
| "tstep (BeforeAttrName tg) c = (if unread c then None else before_attr_name_step tg c)"
| "tstep (AttrName tg an) c = (if unread c then None else attr_name_step tg an c)"
| "tstep (AfterAttrName tg an) c =
     (if unread c then None
      else if is_space c then Some (AfterAttrName tg an, None)
      else if c = CHR ''/'' then None
      else if c = CHR ''='' then Some (BeforeAttrValue tg an, None)
      else if c = CHR ''>'' then Some (Data [], Some (emit_tag (add_attr tg (an, []))))
      else attr_name_step (add_attr tg (an, [])) [] c)"
| \<open>tstep (BeforeAttrValue tg an) c =
     (if unread c then None
      else if is_space c then Some (BeforeAttrValue tg an, None)
      else if c = CHR ''"'' then Some (AttrValueQuoted tg an [], None)
      else if c = CHR 0x27 \<or> c = CHR ''>'' then None
      else unquoted_step tg an [] c)\<close>
| \<open>tstep (AttrValueQuoted tg an v) c =
     (if unread c then None
      else if c = CHR ''"'' then Some (AfterAttrValueQuoted (add_attr tg (an, v)), None)
      else Some (AttrValueQuoted tg an (v @ [c]), None))\<close>
| "tstep (AttrValueUnquoted tg an v) c = (if unread c then None else unquoted_step tg an v c)"
| "tstep (AfterAttrValueQuoted tg) c = (if unread c then None else before_attr_name_step tg c)"

text \<open>The tokens of a text; the end of the text inside a tag is not read.\<close>

fun prepend :: "token option \<Rightarrow> token list \<Rightarrow> token list" where
  "prepend None ts = ts"
| "prepend (Some t) ts = t # ts"

fun tokens :: "tstate \<Rightarrow> string \<Rightarrow> token list option" where
  "tokens st [] = (case st of Data txt \<Rightarrow> Some (prepend (if txt = [] then None else Some (Chars txt)) []) | _ \<Rightarrow> None)"
| "tokens st (c # cs) =
     (case tstep st c of
        None \<Rightarrow> None
      | Some (st', t) \<Rightarrow> map_option (prepend t) (tokens st' cs))"

text \<open>The element of a start tag: its \<open>id\<close>, the words of its \<open>class\<close>, the \<open>display\<close> of
  its \<open>style\<close> (only a style that is empty or one declaration of \<open>display\<close> as \<open>block\<close> or
  \<open>none\<close> is read) and its other attributes.\<close>

fun class_words :: "string \<Rightarrow> string \<Rightarrow> string list" where
  "class_words w [] = (if w = [] then [] else [w])"
| "class_words w (c # cs) =
     (if is_space c then (if w = [] then class_words [] cs else w # class_words [] cs)
      else class_words (w @ [c]) cs)"

definition style_display :: "string \<Rightarrow> string option" where
  "style_display v =
     map_of [([], []),
             (''display:block'', ''block''), (''display: block'', ''block''),
             (''display:block;'', ''block''), (''display: block;'', ''block''),
             (''display:none'', ''none''), (''display: none'', ''none''),
             (''display:none;'', ''none''), (''display: none;'', ''none'')] v"

definition element_of :: "string \<Rightarrow> (string \<times> string) list \<Rightarrow> elem option" where
  "element_of n as =
     (case style_display (case map_of as ''style'' of None \<Rightarrow> [] | Some v \<Rightarrow> v) of
        None \<Rightarrow> None
      | Some d \<Rightarrow>
          Some \<lparr>tag = n,
                eid = (case map_of as ''id'' of None \<Rightarrow> [] | Some v \<Rightarrow> v),
                classes = (case map_of as ''class'' of None \<Rightarrow> [] | Some v \<Rightarrow> class_words [] v),
                attrs = filter (\<lambda>kv. fst kv \<notin> {''id'', ''class'', ''style''}) as,
                display = d\<rparr>)"

text \<open>The elements the model inserts, given the open elements: the start tag of an \<open>a\<close>
  inside an \<open>a\<close>, or of a \<open>button\<close> inside a \<open>button\<close>, makes the browser close the open one
  first, which the model does not follow.\<close>

definition insertable :: "string \<Rightarrow> (elem \<times> node list) list \<Rightarrow> bool" where
  "insertable n open_elements =
     (n \<in> {''div'', ''span'', ''i'', ''a'', ''button''} \<and>
      (n \<in> {''a'', ''button''} \<longrightarrow> n \<notin> set (map (tag \<circ> fst) open_elements)))"

text \<open>The open elements, innermost first, each with the children it has so far, and the
  children of the root. An end tag closes the current element; any other end tag is not
  read.\<close>

fun append_child :: "node \<Rightarrow> (elem \<times> node list) list \<Rightarrow> node list \<Rightarrow> (elem \<times> node list) list \<times> node list" where
  "append_child n [] roots = ([], roots @ [n])"
| "append_child n ((e, cs) # fs) roots = ((e, cs @ [n]) # fs, roots)"

fun build :: "(elem \<times> node list) list \<Rightarrow> node list \<Rightarrow> token list \<Rightarrow> node list option" where
  "build fs roots [] = (if fs = [] then Some roots else None)"
| "build fs roots (Chars s # ts) = (case append_child (Text s) fs roots of (fs', roots') \<Rightarrow> build fs' roots' ts)"
| "build fs roots (StartTag n as # ts) =
     (if insertable n fs then
        (case element_of n as of None \<Rightarrow> None | Some e \<Rightarrow> build ((e, []) # fs) roots ts)
      else None)"
| "build fs roots (EndTag n # ts) =
     (case fs of
        [] \<Rightarrow> None
      | (e, cs) # fs' \<Rightarrow>
          if tag e = n then (case append_child (Element e cs) fs' roots of (fs'', roots') \<Rightarrow> build fs'' roots' ts)
          else None)"

definition html_fragment :: "string \<Rightarrow> node list option" where
  "html_fragment s = (case tokens (Data []) s of None \<Rightarrow> None | Some ts \<Rightarrow> build [] [] ts)"

text \<open>As a parser for the handlers. Markup that the model does not read gives no nodes;
  the runs below are on markup that it reads.\<close>

definition read_html :: "string \<Rightarrow> node list" where
  "read_html s = (case html_fragment s of None \<Rightarrow> [] | Some ns \<Rightarrow> ns)"


text \<open>The tokens of the templates, when the pasted values are read back as they are.\<close>

definition button_tokens :: "bool \<Rightarrow> string \<Rightarrow> string \<Rightarrow> string \<Rightarrow> token list" where
  "button_tokens r c a n =
     (if r then
        [StartTag ''button'' [(''class'', ''btn btn-clear btn-remove-from-collection''),
           (''data-collection-id'', c), (''data-article-id'', a), (''title'', ''Remove from '' @ n)],
         StartTag ''i'' [(''class'', ''fas fa-minus'')], EndTag ''i'', EndTag ''button'']
      else
        [StartTag ''button'' [(''class'', ''btn btn-filter btn-add-to-collection''),
           (''data-collection-id'', c), (''data-article-id'', a), (''title'', ''Add to '' @ n)],
         StartTag ''i'' [(''class'', ''fas fa-plus'')], EndTag ''i'', EndTag ''button''])"

definition entry_tokens :: "string \<Rightarrow> collection \<Rightarrow> token list" where
  "entry_tokens a c =
     [StartTag ''div'' [(''class'', ''collection-entry''), (''data-collection-id'', cid c)],
      StartTag ''span'' []] @
     (if cname c = [] then [] else [Chars (cname c)]) @
     [EndTag ''span'', StartTag ''span'' [(''class'', ''collection-action-button'')]] @
     button_tokens (contains c) (cid c) a (cname c) @
     [EndTag ''span'', EndTag ''div'']"

definition footer_tokens :: "token list" where
  "footer_tokens =
     [StartTag ''div'' [(''class'', ''collections-menu-footer'')],
      StartTag ''a'' [(''href'', ''/collections'')],
      StartTag ''i'' [(''class'', ''fas fa-cog'')], EndTag ''i'',
      Chars '' Manage Collections'', EndTag ''a'', EndTag ''div'']"

definition empty_tokens :: "token list" where
  "empty_tokens =
     [StartTag ''div'' [], Chars ''No collections yet. '',
      StartTag ''a'' [(''href'', ''/collections'')], Chars ''Create one'', EndTag ''a'',
      Chars ''.'', EndTag ''div'']"

definition collections_tokens :: "string \<Rightarrow> collection list option \<Rightarrow> token list" where
  "collections_tokens a cs =
     (if nonempty cs then
        StartTag ''div'' [(''class'', ''collections-list-container'')] #
        concat (map (entry_tokens a) (case cs of None \<Rightarrow> [] | Some l \<Rightarrow> l)) @
        EndTag ''div'' # footer_tokens
      else empty_tokens)"

section \<open>Pages and runs free of markup characters\<close>





section \<open>A sample page\<close>

text \<open>A page with the date filter, an article whose menu has never been opened and an
  article whose menu is open and loaded with two collections.\<close>

definition sample_collections :: "collection list" where
  "sample_collections =
     [\<lparr>cid = ''3'', cname = ''Reading'', contains = False\<rparr>,
      \<lparr>cid = ''4'', cname = ''Work'', contains = True\<rparr>]"

definition sample_menu :: "string \<Rightarrow> string \<Rightarrow> (string \<times> string) list \<Rightarrow> node list \<Rightarrow> node" where
  "sample_menu i shown data content =
     Element \<lparr>tag = ''div'', eid = i, classes = [''collections-menu''], attrs = [], display = shown\<rparr>
       [Element \<lparr>tag = ''div'', eid = [], classes = [''collections-menu-content''], attrs = data,
                 display = []\<rparr> content]"

definition sample_doc :: node where
  "sample_doc =
     el ''body'' [] []
       [el ''div'' [''date-filter-toggle''] [] [el ''span'' [''toggle-icon''] [] [Text ''+'']],
        Element \<lparr>tag = ''div'', eid = ''date-filter-content'', classes = [], attrs = [], display = []\<rparr>
          [Element \<lparr>tag = ''input'', eid = ''start_date'', classes = [],
                    attrs = [(''value'', ''2024-01-01'')], display = []\<rparr> [],
           Element \<lparr>tag = ''input'', eid = ''end_date'', classes = [],
                    attrs = [(''value'', [])], display = []\<rparr> []],
        el ''div'' [''article''] []
          [el ''button'' [''btn''] [] [Text ''Collections''],
           sample_menu ''collections-menu-7'' [] [] []],
        el ''div'' [''article''] []
          [el ''button'' [''btn''] [] [Text ''Collections''],
           sample_menu ''collections-menu-8'' ''block'' [(''data-loaded'', ''true'')]
             (collections_nodes ''8'' (Some sample_collections))]]"

definition sample_page :: page where
  "sample_page = \<lparr>doc = sample_doc, effects = []\<rparr>"



text \<open>A page with an add button outside any menu, and a page whose date filter has a start
  date input with a value and no end date input.\<close>

definition stray_button_page :: page where
  "stray_button_page =
     \<lparr>doc = el ''body'' [] []
              [el ''button'' [''btn'', ''btn-add-to-collection'']
                 [(''data-collection-id'', ''3''), (''data-article-id'', ''8'')] [Text ''Add'']],
      effects = []\<rparr>"

definition start_only_page :: page where
  "start_only_page =
     \<lparr>doc = el ''body'' [] []
              [el ''div'' [''date-filter-toggle''] [] [el ''span'' [''toggle-icon''] [] [Text ''+'']],
               Element \<lparr>tag = ''div'', eid = ''date-filter-content'', classes = [], attrs = [],
                        display = []\<rparr>
                 [Element \<lparr>tag = ''input'', eid = ''start_date'', classes = [],
                           attrs = [(''value'', ''2024-01-01'')], display = []\<rparr> []]],
      effects = []\<rparr>"


definition element_in_name :: "collection list" where
  "element_in_name = [\<lparr>cid = ''3'', cname = ''<i>Hot</i>'', contains = False\<rparr>]"

definition ok_reply :: "collection list option \<Rightarrow> response" where
  "ok_reply cs = Http True 200 (Json \<lparr>status = ''ok'', message = None, collections = cs\<rparr>)"

definition quoted_row_page :: page where
  \<open>quoted_row_page =
     \<lparr>doc = el ''body'' [] []
              [el ''div'' [''collection-entry''] [(''data-collection-id'', ''3'')]
                 [el ''span'' [] [] [Text ''Say "hi"''],
                  el ''span'' [''collection-action-button''] []
                    [el ''button'' [''btn'', ''btn-filter'', ''btn-add-to-collection'']
                       [(''data-collection-id'', ''3''), (''data-article-id'', ''8'')] []]]],
      effects = []\<rparr>\<close>





section \<open>Facts about the document tree\<close>

lemma paths_list_set:
  "(\<And>c q. c \<in> set cs \<Longrightarrow> (q \<in> set (paths c)) = (node_at c q \<noteq> None)) \<Longrightarrow>
   (p \<in> set (paths_list i cs)) = (\<exists>j q. p = (i + j) # q \<and> j < length cs \<and> node_at (cs ! j) q \<noteq> None)"
proof (induction cs arbitrary: i)
  case Nil
  then show ?case by simp
next
  case (Cons c cs)
  have IH: "(p \<in> set (paths_list (Suc i) cs)) =
      (\<exists>j q. p = (Suc i + j) # q \<and> j < length cs \<and> node_at (cs ! j) q \<noteq> None)"
    by (rule Cons.IH) (simp add: Cons.prems)
  have H: "\<And>q. (q \<in> set (paths c)) = (node_at c q \<noteq> None)"
    by (simp add: Cons.prems)
  show ?case
  proof
    assume "p \<in> set (paths_list i (c # cs))"
    then consider (a) q where "p = i # q" "q \<in> set (paths c)"
      | (b) "p \<in> set (paths_list (Suc i) cs)" by auto
    then show "\<exists>j q. p = (i + j) # q \<and> j < length (c # cs) \<and> node_at ((c # cs) ! j) q \<noteq> None"
    proof cases
      case a
      then have "p = (i + 0) # q \<and> 0 < length (c # cs) \<and> node_at ((c # cs) ! 0) q \<noteq> None"
        using H by simp
      then show ?thesis by blast
    next
      case b
      then obtain j q where "p = (Suc i + j) # q" "j < length cs" "node_at (cs ! j) q \<noteq> None"
        using IH by blast
      then have "p = (i + Suc j) # q \<and> Suc j < length (c # cs) \<and> node_at ((c # cs) ! Suc j) q \<noteq> None"
        by simp
      then show ?thesis by blast
    qed
  next
    assume "\<exists>j q. p = (i + j) # q \<and> j < length (c # cs) \<and> node_at ((c # cs) ! j) q \<noteq> None"
    then obtain j q where jq: "p = (i + j) # q" "j < length (c # cs)" "node_at ((c # cs) ! j) q \<noteq> None"
      by blast
    show "p \<in> set (paths_list i (c # cs))"
    proof (cases j)
      case 0
      then show ?thesis using jq H by simp
    next
      case (Suc k)
      then have "p = (Suc i + k) # q \<and> k < length cs \<and> node_at (cs ! k) q \<noteq> None"
        using jq by simp
      then have "p \<in> set (paths_list (Suc i) cs)" using IH by blast
      then show ?thesis by simp
    qed
  qed
qed

lemma paths_set: "(p \<in> set (paths n)) = (node_at n p \<noteq> None)"
proof (induction n arbitrary: p)
  case (Text s)
  show ?case by (cases p) simp_all
next
  case (Element e cs)
  have L: "\<And>p. (p \<in> set (paths_list 0 cs)) =
            (\<exists>j q. p = (0 + j) # q \<and> j < length cs \<and> node_at (cs ! j) q \<noteq> None)"
    by (rule paths_list_set) (simp add: Element.IH)
  show ?case
  proof (cases p)
    case Nil
    then show ?thesis by simp
  next
    case (Cons i q)
    then show ?thesis using L [of p] by auto
  qed
qed

lemma update_at_below:
  "node_at n p = Some x \<Longrightarrow> node_at (update_at p f n) (p @ r) = node_at (f x) r"
proof (induction p arbitrary: n)
  case Nil
  then show ?case by simp
next
  case (Cons i p)
  then show ?case by (cases n) (auto split: if_splits)
qed

lemma update_at_invalid: "node_at n p = None \<Longrightarrow> update_at p f n = n"
proof (induction p arbitrary: n)
  case Nil
  then show ?case by simp
next
  case (Cons i p)
  then show ?case by (cases n) (auto split: if_splits simp: list_update_same_conv)
qed

lemma update_at_apart:
  "\<not> prefix p q \<Longrightarrow> \<not> prefix q p \<Longrightarrow> node_at (update_at p f n) q = node_at n q"
proof (induction p arbitrary: n q)
  case Nil
  then show ?case by simp
next
  case (Cons i p)
  then obtain j q' where q: "q = j # q'" by (cases q) auto
  show ?case
  proof (cases n)
    case (Text s)
    then show ?thesis by simp
  next
    case (Element e cs)
    show ?thesis
    proof (cases "i = j")
      case True
      then show ?thesis using Cons q Element by (auto simp: nth_list_update)
    next
      case False
      then show ?thesis using q Element by (auto simp: nth_list_update)
    qed
  qed
qed

lemma elem_at_update_at_above:
  "\<not> prefix p q \<Longrightarrow> elem_at (update_at p f n) q = elem_at n q"
proof (induction p arbitrary: n q)
  case Nil
  then show ?case by simp
next
  case (Cons i p)
  show ?case
  proof (cases n)
    case (Text s)
    then show ?thesis by simp
  next
    case (Element e cs)
    show ?thesis
    proof (cases q)
      case Nil
      then show ?thesis using Element by (simp add: elem_at_def)
    next
      case (Cons j q')
      show ?thesis
      proof (cases "i = j")
        case True
        then have "\<not> prefix p q'" using Cons.prems Cons by simp
        then have "elem_at (update_at p f (cs ! i)) q' = elem_at (cs ! i) q'" by (rule Cons.IH)
        then show ?thesis using True Cons Element by (auto simp: elem_at_def nth_list_update)
      next
        case False
        then show ?thesis using Cons Element by (auto simp: elem_at_def nth_list_update)
      qed
    qed
  qed
qed

lemma text_at_update_at_above:
  "\<not> prefix p q \<Longrightarrow> text_at (update_at p f n) q = text_at n q"
proof (induction p arbitrary: n q)
  case Nil
  then show ?case by simp
next
  case (Cons i p)
  show ?case
  proof (cases n)
    case (Text s)
    then show ?thesis by simp
  next
    case (Element e cs)
    show ?thesis
    proof (cases q)
      case Nil
      then show ?thesis using Element by (simp add: text_at_def)
    next
      case (Cons j q')
      show ?thesis
      proof (cases "i = j")
        case True
        then have "\<not> prefix p q'" using Cons.prems Cons by simp
        then have "text_at (update_at p f (cs ! i)) q' = text_at (cs ! i) q'" by (rule Cons.IH)
        then show ?thesis using True Cons Element by (auto simp: text_at_def nth_list_update)
      next
        case False
        then show ?thesis using Cons Element by (auto simp: text_at_def nth_list_update)
      qed
    qed
  qed
qed


lemma node_at_append:
  "node_at n (p @ r) = (case node_at n p of None \<Rightarrow> None | Some x \<Rightarrow> node_at x r)"
proof (induction p arbitrary: n)
  case Nil
  then show ?case by simp
next
  case (Cons i p)
  then show ?case by (cases n) auto
qed

lemma node_at_prefix_valid:
  "node_at n q \<noteq> None \<Longrightarrow> prefix p q \<Longrightarrow> node_at n p \<noteq> None"
  by (auto simp: prefix_def node_at_append split: option.splits)

lemma node_at_update_elem_self:
  "node_at (update_elem p f n) p =
     map_option (\<lambda>x. case x of Element e cs \<Rightarrow> Element (f e) cs | Text s \<Rightarrow> x) (node_at n p)"
proof (cases "node_at n p")
  case None
  then show ?thesis by (simp add: update_elem_def update_at_invalid)
next
  case (Some x)
  then show ?thesis using update_at_below [of n p x _ "[]"] by (simp add: update_elem_def)
qed

lemma node_at_update_elem_other:
  assumes "q \<noteq> p" "\<not> prefix q p"
  shows "node_at (update_elem p f n) q = node_at n q"
proof (cases "prefix p q")
  case False
  then show ?thesis using assms by (simp add: update_elem_def update_at_apart)
next
  case True
  then obtain r where r: "q = p @ r" by (auto simp: prefix_def)
  with assms have "r \<noteq> []" by auto
  then obtain i r' where r': "r = i # r'" by (cases r) auto
  show ?thesis
  proof (cases "node_at n p")
    case None
    then show ?thesis by (simp add: update_elem_def update_at_invalid)
  next
    case (Some x)
    then show ?thesis
      using update_at_below [of n p x _ r] r r'
      by (cases x) (simp_all add: update_elem_def node_at_append)
  qed
qed

lemma elem_at_update_elem:
  "elem_at (update_elem p f n) q = (if q = p then map_option f (elem_at n q) else elem_at n q)"
proof (cases "q = p")
  case True
  then show ?thesis
    by (auto simp: elem_at_def node_at_update_elem_self split: option.splits node.splits)
next
  case False
  show ?thesis
  proof (cases "prefix p q")
    case True
    then have "\<not> prefix q p" using False by (auto simp: prefix_order.antisym)
    then show ?thesis using False by (simp add: elem_at_def node_at_update_elem_other)
  next
    case False
    then show ?thesis using \<open>q \<noteq> p\<close> by (simp add: update_elem_def elem_at_update_at_above)
  qed
qed

lemma text_at_update_elem: "text_at (update_elem p f n) q = text_at n q"
proof (cases "q = p")
  case True
  then show ?thesis
    by (auto simp: text_at_def node_at_update_elem_self split: option.splits node.splits)
next
  case False
  show ?thesis
  proof (cases "prefix p q")
    case True
    then have "\<not> prefix q p" using False by (auto simp: prefix_order.antisym)
    then show ?thesis using False by (simp add: text_at_def node_at_update_elem_other)
  next
    case False
    then show ?thesis by (simp add: update_elem_def text_at_update_at_above)
  qed
qed

subsection \<open>Replacing children\<close>

lemma set_children_at:
  "node_at n p = Some (Element e cs) \<Longrightarrow> node_at (set_children p cs' n) (p @ r) = node_at (Element e cs') r"
  using update_at_below [of n p "Element e cs" _ r] by (simp add: set_children_def)

lemma set_children_noop:
  "children_at n p = None \<Longrightarrow> set_children p cs' n = n"
proof (cases "node_at n p")
  case None
  then show ?thesis by (simp add: set_children_def update_at_invalid)
next
  case (Some x)
  assume "children_at n p = None"
  with Some obtain s where x: "x = Text s" by (cases x) (auto simp: children_at_def)
  have "update_at p (\<lambda>n. n) n = n" for p n
  proof (induction p arbitrary: n)
    case Nil
    then show ?case by simp
  next
    case (Cons i p)
    then show ?case by (cases n) (auto simp: list_update_same_conv)
  qed
  moreover have "update_at p f n = update_at p g n" if "\<And>y. node_at n p = Some y \<Longrightarrow> f y = g y" for f g
    using that
  proof (induction p arbitrary: n)
    case Nil
    then show ?case by simp
  next
    case (Cons i p)
    then show ?case by (cases n) auto
  qed
  ultimately show ?thesis
    using Some x unfolding set_children_def
    by (metis (mono_tags, lifting) node.simps(6) option.inject)
qed

lemma children_at_set_children:
  "children_at n p \<noteq> None \<Longrightarrow> children_at (set_children p cs' n) p = Some cs'"
proof -
  assume "children_at n p \<noteq> None"
  then obtain e cs where "node_at n p = Some (Element e cs)"
    by (auto simp: children_at_def split: option.splits node.splits)
  from set_children_at [OF this, of cs' "[]"] show ?thesis by (simp add: children_at_def)
qed

lemma elem_at_set_children:
  "\<not> strict_prefix p q \<Longrightarrow> elem_at (set_children p cs' n) q = elem_at n q"
proof (cases "q = p")
  case True
  show ?thesis
  proof (cases "children_at n p")
    case None
    then show ?thesis by (simp add: set_children_noop)
  next
    case (Some cs)
    then obtain e where ne: "node_at n p = Some (Element e cs)"
      by (auto simp: children_at_def split: option.splits node.splits)
    from set_children_at [OF ne, of cs' "[]"] ne True show ?thesis by (simp add: elem_at_def)
  qed
next
  case False
  assume "\<not> strict_prefix p q"
  with False have "\<not> prefix p q" by (simp add: strict_prefix_def)
  then show ?thesis by (simp add: set_children_def elem_at_update_at_above)
qed

lemma text_at_set_children:
  "\<not> strict_prefix p q \<Longrightarrow> text_at (set_children p cs' n) q = text_at n q"
proof (cases "q = p")
  case True
  show ?thesis
  proof (cases "children_at n p")
    case None
    then show ?thesis by (simp add: set_children_noop)
  next
    case (Some cs)
    then obtain e where ne: "node_at n p = Some (Element e cs)"
      by (auto simp: children_at_def split: option.splits node.splits)
    from set_children_at [OF ne, of cs' "[]"] ne True show ?thesis by (simp add: text_at_def)
  qed
next
  case False
  assume "\<not> strict_prefix p q"
  with False have "\<not> prefix p q" by (simp add: strict_prefix_def)
  then show ?thesis by (simp add: set_children_def text_at_update_at_above)
qed

lemma node_at_set_children_apart:
  "\<not> prefix p q \<Longrightarrow> \<not> prefix q p \<Longrightarrow> node_at (set_children p cs' n) q = node_at n q"
  by (simp add: set_children_def update_at_apart)

lemma node_at_set_children_below:
  "node_at (set_children p cs' n) (p @ i # r) =
     (case children_at n p of
        None \<Rightarrow> None
      | Some cs \<Rightarrow> if i < length cs' then node_at (cs' ! i) r else None)"
proof (cases "children_at n p")
  case None
  then have "node_at n (p @ i # r) = None"
    by (auto simp: children_at_def node_at_append split: option.splits node.splits)
  then show ?thesis using None by (simp add: set_children_noop)
next
  case (Some cs)
  then obtain e where ne: "node_at n p = Some (Element e cs)"
    by (auto simp: children_at_def split: option.splits node.splits)
  from set_children_at [OF ne, of cs' "i # r"] Some show ?thesis by simp
qed

subsection \<open>Fragments without a class\<close>

lemma class_free_node_at:
  "class_free c n \<Longrightarrow> node_at n q = Some x \<Longrightarrow> class_free c x"
proof (induction q arbitrary: n)
  case Nil
  then show ?case by simp
next
  case (Cons i q)
  then show ?case by (cases n) (auto simp: list_all_length split: if_splits)
qed

lemma class_free_matches: "class_free c n \<Longrightarrow> \<not> matches n c q"
proof
  assume cf: "class_free c n" and m: "matches n c q"
  then obtain e cs where x: "node_at n q = Some (Element e cs)" "c \<in> set (classes e)"
    by (auto simp: matches_def elem_at_def split: option.splits node.splits)
  from class_free_node_at [OF cf x(1)] x(2) show False by simp
qed

lemma matches_set_children:
  assumes "list_all (class_free c) cs'" "matches (set_children p cs' n) c q"
  shows "matches n c q \<and> \<not> strict_prefix p q"
proof -
  have np: "\<not> strict_prefix p q"
  proof
    assume "strict_prefix p q"
    then obtain i r where q: "q = p @ i # r"
      by (metis strict_prefixE' append.assoc append_Cons append_Nil)
    from assms(2) have "node_at (set_children p cs' n) q \<noteq> None"
      by (auto simp: matches_def elem_at_def split: option.splits)
    then have i: "i < length cs'" and nz: "node_at (set_children p cs' n) q = node_at (cs' ! i) r"
      unfolding q node_at_set_children_below by (auto split: option.splits if_splits)
    from i assms(1) have "class_free c (cs' ! i)" by (simp add: list_all_length)
    then have "\<not> matches (cs' ! i) c r" by (rule class_free_matches)
    with assms(2) nz show False by (simp add: matches_def elem_at_def)
  qed
  with assms(2) show ?thesis by (simp add: matches_def elem_at_set_children)
qed

subsection \<open>Document order\<close>




subsection \<open>Erasing display values\<close>

lemma paths_strip_aux:
  "(\<And>c. c \<in> set cs \<Longrightarrow> paths (strip c) = paths c) \<Longrightarrow>
   paths_list i (map strip cs) = paths_list i cs"
  by (induction cs arbitrary: i) simp_all

lemma paths_strip: "paths (strip n) = paths n"
proof (induction n)
  case (Text s)
  show ?case by simp
next
  case (Element e cs)
  then show ?case by (simp add: paths_strip_aux)
qed

lemma node_at_strip: "node_at (strip n) p = map_option strip (node_at n p)"
proof (induction p arbitrary: n)
  case Nil
  then show ?case by simp
next
  case (Cons i p)
  then show ?case by (cases n) auto
qed

lemma elem_at_strip: "elem_at (strip n) p = map_option (\<lambda>e. e\<lparr>display := []\<rparr>) (elem_at n p)"
  by (auto simp: elem_at_def node_at_strip split: option.splits node.splits elim: strip.elims)

lemma matches_strip: "matches (strip n) c p = matches n c p"
  by (auto simp: matches_def elem_at_strip split: option.splits)

lemma attr_at_strip: "attr_at (strip n) p k = attr_at n p k"
  by (auto simp: attr_at_def elem_at_strip split: option.splits)

lemma strip_update_at:
  "(\<And>x. strip (f x) = strip x) \<Longrightarrow> strip (update_at p f n) = strip n"
proof (induction p arbitrary: n)
  case Nil
  then show ?case by simp
next
  case (Cons i p)
  show ?case
  proof (cases n)
    case (Text s)
    then show ?thesis by simp
  next
    case (Element e cs)
    have "strip (update_at p f (cs ! i)) = strip (cs ! i)" by (rule Cons.IH) (rule Cons.prems)
    then have "i < length cs \<Longrightarrow> map strip (cs[i := update_at p f (cs ! i)]) = map strip cs"
      by (simp add: map_update list_update_same_conv)
    then show ?thesis using Element by simp
  qed
qed

lemma strip_set_display: "strip (set_display p v n) = strip n"
  unfolding set_display_def update_elem_def
  by (rule strip_update_at) (simp split: node.splits)

lemma strip_eq_paths: "strip d' = strip d \<Longrightarrow> paths d' = paths d"
  by (metis paths_strip)

lemma strip_eq_matches: "strip d' = strip d \<Longrightarrow> matches d' c p = matches d c p"
  by (metis matches_strip)

lemma strip_eq_attr_at: "strip d' = strip d \<Longrightarrow> attr_at d' p k = attr_at d p k"
  by (metis attr_at_strip)

lemma strip_eq_eid:
  "strip d' = strip d \<Longrightarrow> map_option eid (elem_at d' p) = map_option eid (elem_at d p)"
proof -
  assume "strip d' = strip d"
  then have "map_option eid (elem_at (strip d') p) = map_option eid (elem_at (strip d) p)" by simp
  then show ?thesis by (simp add: elem_at_strip option.map_comp comp_def)
qed

lemma text_at_strip: "text_at (strip n) p = text_at n p"
proof (cases "node_at n p")
  case None
  then show ?thesis by (simp add: text_at_def node_at_strip)
next
  case (Some x)
  then show ?thesis by (cases x) (simp_all add: text_at_def node_at_strip)
qed

lemma strip_eq_text_at: "strip d' = strip d \<Longrightarrow> text_at d' p = text_at d p"
  by (metis text_at_strip)

lemma strip_eq_valid: "strip d' = strip d \<Longrightarrow> (node_at d' p = None) = (node_at d p = None)"
proof -
  assume "strip d' = strip d"
  then have "node_at (strip d') p = node_at (strip d) p" by simp
  then have "map_option strip (node_at d' p) = map_option strip (node_at d p)"
    by (simp add: node_at_strip)
  then show ?thesis by (cases "node_at d' p"; cases "node_at d p") simp_all
qed

subsection \<open>The forEach loops\<close>

lemma elem_at_set_display:
  "elem_at (set_display p v n) q =
     (if q = p then map_option (\<lambda>e. e\<lparr>display := v\<rparr>) (elem_at n q) else elem_at n q)"
  by (simp add: set_display_def elem_at_update_elem)

lemma fold_set_display:
  assumes C: "\<And>d1 d2. strip d1 = strip d2 \<Longrightarrow> C d1 = C d2"
  shows "strip (fold (\<lambda>m d'. if C d' m then set_display m v d' else d') ps d) = strip d \<and>
         (\<forall>q. elem_at (fold (\<lambda>m d'. if C d' m then set_display m v d' else d') ps d) q =
               (if q \<in> set ps \<and> C d q then map_option (\<lambda>e. e\<lparr>display := v\<rparr>) (elem_at d q)
                else elem_at d q))"
proof (induction ps arbitrary: d)
  case Nil
  show ?case by simp
next
  case (Cons m ps)
  let ?d1 = "if C d m then set_display m v d else d"
  have s1: "strip ?d1 = strip d" by (simp add: strip_set_display)
  have c1: "C ?d1 = C d" by (rule C) (rule s1)
  have e1: "elem_at ?d1 q =
      (if C d m \<and> q = m then map_option (\<lambda>e. e\<lparr>display := v\<rparr>) (elem_at d q) else elem_at d q)" for q
    by (simp add: elem_at_set_display)
  have IH: "strip (fold (\<lambda>m d'. if C d' m then set_display m v d' else d') ps ?d1) = strip ?d1 \<and>
         (\<forall>q. elem_at (fold (\<lambda>m d'. if C d' m then set_display m v d' else d') ps ?d1) q =
               (if q \<in> set ps \<and> C ?d1 q then map_option (\<lambda>e. e\<lparr>display := v\<rparr>) (elem_at ?d1 q)
                else elem_at ?d1 q))"
    by (rule Cons.IH)
  have f: "fold (\<lambda>m d'. if C d' m then set_display m v d' else d') (m # ps) d =
           fold (\<lambda>m d'. if C d' m then set_display m v d' else d') ps ?d1" by simp
  show ?case
    unfolding f using IH s1 unfolding c1 e1
    by (auto simp: option.map_comp comp_def)
qed

lemma hide_others_cond:
  "strip d1 = strip d2 \<Longrightarrow>
   (\<lambda>m. map_option eid (elem_at d1 m) \<noteq> Some menuId) = (\<lambda>m. map_option eid (elem_at d2 m) \<noteq> Some menuId)"
proof -
  assume s: "strip d1 = strip d2"
  have "map_option eid (elem_at d1 m) = map_option eid (elem_at d2 m)" for m
    by (rule strip_eq_eid [OF s])
  then show ?thesis by simp
qed

lemma querySelectorAll_set: "(p \<in> set (querySelectorAll c d)) = matches d c p"
proof -
  have "matches d c p \<Longrightarrow> node_at d p \<noteq> None"
    by (auto simp: matches_def elem_at_def split: option.splits)
  then show ?thesis by (auto simp: querySelectorAll_def paths_set)
qed

lemma strip_hide_others: "strip (hide_others menuId d) = strip d"
  unfolding hide_others_def
  using fold_set_display [of "\<lambda>d' m. map_option eid (elem_at d' m) \<noteq> Some menuId" "''none''"
      "querySelectorAll ''collections-menu'' d" d, OF hide_others_cond]
  by blast

lemma elem_at_hide_others:
  "elem_at (hide_others menuId d) q =
     (if matches d ''collections-menu'' q \<and> map_option eid (elem_at d q) \<noteq> Some menuId
      then map_option (\<lambda>e. e\<lparr>display := ''none''\<rparr>) (elem_at d q) else elem_at d q)"
  unfolding hide_others_def
  using fold_set_display [of "\<lambda>d' m. map_option eid (elem_at d' m) \<noteq> Some menuId" "''none''"
      "querySelectorAll ''collections-menu'' d" d, OF hide_others_cond]
  by (simp add: querySelectorAll_set)

lemma strip_hide_all: "strip (hide_all d) = strip d"
  unfolding hide_all_def
  using fold_set_display [of "\<lambda>d' m. True" "''none''" "querySelectorAll ''collections-menu'' d" d]
  by simp

lemma elem_at_hide_all:
  "elem_at (hide_all d) q =
     (if matches d ''collections-menu'' q
      then map_option (\<lambda>e. e\<lparr>display := ''none''\<rparr>) (elem_at d q) else elem_at d q)"
  unfolding hide_all_def
  using fold_set_display [of "\<lambda>d' m. True" "''none''" "querySelectorAll ''collections-menu'' d" d]
  by (simp add: querySelectorAll_set)

subsection \<open>Queries do not read display values\<close>

lemma strip_eq_elem_valid:
  "strip d' = strip d \<Longrightarrow> (elem_at d' p = None) = (elem_at d p = None)"
proof -
  assume "strip d' = strip d"
  then have "elem_at (strip d') p = elem_at (strip d) p" by simp
  then show ?thesis by (cases "elem_at d' p"; cases "elem_at d p") (simp_all add: elem_at_strip)
qed


lemma querySelectorAll_strip_eq:
  "strip d' = strip d \<Longrightarrow> querySelectorAll c d' = querySelectorAll c d"
proof -
  assume s: "strip d' = strip d"
  have "matches d' c = matches d c" using strip_eq_matches [OF s] by auto
  then show ?thesis by (simp add: querySelectorAll_def strip_eq_paths [OF s])
qed

lemma closest_strip_eq:
  "strip d' = strip d \<Longrightarrow> closest d' c p = closest d c p"
proof -
  assume s: "strip d' = strip d"
  have "matches d' c = matches d c" using strip_eq_matches [OF s] by auto
  then show ?thesis by (simp add: closest_def)
qed

lemma querySelector_in_class_strip_eq:
  "strip d' = strip d \<Longrightarrow>
   querySelector_in d' t (\<lambda>n. matches n c) = querySelector_in d t (\<lambda>n. matches n c)"
proof -
  assume s: "strip d' = strip d"
  have m: "matches d' c = matches d c" using strip_eq_matches [OF s] by auto
  have "map_option strip (node_at d' t) = map_option strip (node_at d t)"
    using s by (metis node_at_strip)
  then have "map_option paths (node_at d' t) = map_option paths (node_at d t)"
    by (cases "node_at d' t"; cases "node_at d t") (auto dest: strip_eq_paths)
  then show ?thesis
    unfolding querySelector_in_def m
    by (cases "node_at d' t"; cases "node_at d t") simp_all
qed

subsection \<open>closest\<close>

lemma closest_Some: "closest d c p = Some q \<Longrightarrow> prefix q p \<and> matches d c q"
proof -
  assume "closest d c p = Some q"
  then have "q \<in> set (rev (prefixes p)) \<and> matches d c q"
    unfolding closest_def by (metis find_Some_iff nth_mem)
  then show ?thesis by simp
qed

lemma closest_None: "(closest d c p = None) = (\<forall>q. prefix q p \<longrightarrow> \<not> matches d c q)"
  unfolding closest_def by (auto simp: find_None_iff)

subsection \<open>The invariant, path by path\<close>




subsection \<open>The constants and the elements of the templates contain no menu\<close>

lemma class_free_fragments:
  "list_all (class_free ''collections-menu'') [Text s]"
  "list_all (class_free ''collections-menu'') error_html"
  "list_all (class_free ''collections-menu'') [remove_button_node a b c]"
  "list_all (class_free ''collections-menu'') [add_button_node a b c]"
  by (simp_all add: error_html_def remove_button_node_def add_button_node_def el_def)



subsection \<open>Menus under the writes of the handlers\<close>

lemma getElementById_Some:
  "getElementById i d = Some t \<Longrightarrow> map_option eid (elem_at d t) = Some i"
  by (auto simp: getElementById_def find_Some_iff split: if_splits option.splits)

lemma hide_others_menus:
  "matches (hide_others m d) c q = matches d c q"
  "map_option eid (elem_at (hide_others m d) q) = map_option eid (elem_at d q)"
  by (rule strip_eq_matches [OF strip_hide_others], rule strip_eq_eid [OF strip_hide_others])

lemma hide_others_visible:
  "visible_menu (hide_others m d) q \<Longrightarrow> map_option eid (elem_at d q) = Some m"
  unfolding visible_menu_def display_at_def hide_others_menus
  by (auto simp: elem_at_hide_others split: if_splits)

lemma set_display_menus:
  "matches (set_display t v d) c q = matches d c q"
  "map_option eid (elem_at (set_display t v d) q) = map_option eid (elem_at d q)"
  by (rule strip_eq_matches [OF strip_set_display], rule strip_eq_eid [OF strip_set_display])

lemma set_display_visible:
  "visible_menu (set_display t v d) q \<Longrightarrow> q = t \<or> visible_menu d q"
  unfolding visible_menu_def display_at_def set_display_menus
  by (auto simp: elem_at_set_display split: if_splits)

lemma set_children_menus:
  assumes "list_all (class_free ''collections-menu'') cs'"
    and "matches (set_children p cs' d) ''collections-menu'' q"
  shows "matches d ''collections-menu'' q \<and> elem_at (set_children p cs' d) q = elem_at d q"
  using matches_set_children [OF assms] by (simp add: elem_at_set_children)

lemma elem_at_set_attr:
  "elem_at (set_attr p k v d) q =
     (if q = p then map_option (\<lambda>e. e\<lparr>attrs := AList.update k v (attrs e)\<rparr>) (elem_at d q)
      else elem_at d q)"
  by (simp add: set_attr_def elem_at_update_elem)

lemma set_attr_menus:
  "matches (set_attr p k v d) c q = matches d c q"
  "map_option eid (elem_at (set_attr p k v d) q) = map_option eid (elem_at d q)"
  "display_at (set_attr p k v d) q = display_at d q"
  by (auto simp: matches_def display_at_def elem_at_set_attr option.map_comp comp_def
      split: option.splits)


lemma toggle_visible:
  assumes "visible_menu (doc (outcome_page (toggleCollectionsMenu menuId pg))) q"
  shows "map_option eid (elem_at (doc pg) q) = Some menuId"
proof -
  let ?d = "doc pg" and ?d1 = "hide_others menuId (doc pg)"
  have v1: "visible_menu ?d1 q \<Longrightarrow> ?thesis" by (rule hide_others_visible)
  have v2: "visible_menu (set_display t v ?d1) q \<Longrightarrow> ?thesis"
    if "getElementById menuId ?d = Some t" for t v
    using set_display_visible [of t v ?d1 q] v1 getElementById_Some [OF that] by auto
  have v3: "visible_menu (set_children c [Text s] (set_display t v ?d1)) q \<Longrightarrow> ?thesis"
    if "getElementById menuId ?d = Some t" for t v c s
  proof -
    assume a: "visible_menu (set_children c [Text s] (set_display t v ?d1)) q"
    then have "matches (set_children c [Text s] (set_display t v ?d1)) ''collections-menu'' q"
      by (simp add: visible_menu_def)
    from set_children_menus [OF class_free_fragments(1) this] a
    have "visible_menu (set_display t v ?d1) q" by (simp add: visible_menu_def display_at_def)
    then show ?thesis by (rule v2 [OF that])
  qed
  show ?thesis
    using assms v1 v2 v3
    by (auto simp: toggleCollectionsMenu_def Let_def emit_def split: option.splits if_splits)
qed

lemma hide_all_menus:
  "matches (hide_all d) c q = matches d c q"
  "map_option eid (elem_at (hide_all d) q) = map_option eid (elem_at d q)"
  by (rule strip_eq_matches [OF strip_hide_all], rule strip_eq_eid [OF strip_hide_all])


subsection \<open>What toggleCollectionsMenu reads after its first writes\<close>

lemma querySelector_in_Some:
  "querySelector_in d t sel = Some c \<Longrightarrow>
   strict_prefix t c \<and> sel d c \<and> node_at d c \<noteq> None"
proof -
  assume a: "querySelector_in d t sel = Some c"
  then obtain sub where sub: "node_at d t = Some sub"
    by (auto simp: querySelector_in_def split: option.splits)
  with a obtain q where q: "find (\<lambda>q. q \<noteq> [] \<and> sel d (t @ q)) (paths sub) = Some q" "c = t @ q"
    by (auto simp: querySelector_in_def)
  then have "q \<in> set (paths sub) \<and> q \<noteq> [] \<and> sel d (t @ q)"
    by (metis (mono_tags, lifting) find_Some_iff nth_mem)
  then show ?thesis using q(2) sub by (auto simp: paths_set node_at_append strict_prefix_def)
qed

lemma display_at_hide_others_target:
  "getElementById menuId d = Some t \<Longrightarrow> display_at (hide_others menuId d) t = display_at d t"
  using getElementById_Some [of menuId d t] by (simp add: display_at_def elem_at_hide_others)

lemma display_at_set_display:
  "elem_at d t \<noteq> None \<Longrightarrow> display_at (set_display t v d) t = Some v"
  by (auto simp: display_at_def elem_at_set_display)

lemma strip_toggled: "strip (set_display t v (hide_others menuId d)) = strip d"
  by (simp add: strip_set_display strip_hide_others)

lemma getElementById_elem: "getElementById i d = Some t \<Longrightarrow> elem_at d t \<noteq> None"
  using getElementById_Some [of i d t] by auto

lemma hide_others_elem_valid: "(elem_at (hide_others m d) t = None) = (elem_at d t = None)"
  by (rule strip_eq_elem_valid [OF strip_hide_others])

lemma matches_children_at: "matches d c p \<Longrightarrow> children_at d p \<noteq> None"
  by (auto simp: matches_def elem_at_def children_at_def split: option.splits node.splits)


lemma last_split_str_plain: "sep \<notin> set s \<Longrightarrow> split_str sep s = [s]"
  by (induction s) auto

lemma length_split_str: "length (split_str sep s) = Suc (length (filter (\<lambda>c. c = sep) s))"
  by (induction s) (auto split: list.splits)

lemma last_split_str:
  "sep \<notin> set seg \<Longrightarrow> last (split_str sep (pre @ sep # seg)) = seg"
proof (induction pre)
  case Nil
  then show ?case by (simp add: last_split_str_plain)
next
  case (Cons a pre)
  have "length (split_str sep (pre @ sep # seg)) \<ge> 2" by (simp add: length_split_str)
  then obtain w v ws where "split_str sep (pre @ sep # seg) = w # v # ws"
    by (cases "split_str sep (pre @ sep # seg)"; cases "tl (split_str sep (pre @ sep # seg))") auto
  then show ?case using Cons by auto
qed

subsection \<open>The click listener, case by case\<close>

lemma click_listener_action:
  assumes "matches (doc pg) ''btn-add-to-collection'' tg \<or>
           matches (doc pg) ''btn-remove-from-collection'' tg"
  shows "click_listener tg pg =
         Await (pg\<lparr>effects := effects pg @
                  [PreventDefault,
                   Fetch (post_request
                            (action_url (attr_at (doc pg) tg ''data-collection-id'')
                               (if matches (doc pg) ''btn-remove-from-collection'' tg then Remove else Add))
                            (attr_at (doc pg) tg ''data-article-id''))]\<rparr>)
           \<lparr>target = tg,
            aw_action = (if matches (doc pg) ''btn-remove-from-collection'' tg then Remove else Add),
            collectionId = attr_at (doc pg) tg ''data-collection-id'',
            aw_articleId = attr_at (doc pg) tg ''data-article-id''\<rparr>"
  using assms by (auto simp: click_listener_def Let_def emit_def)

lemma click_resume_success:
  assumes "status data = ''ok''"
    and "closest (doc pg) ''collection-action-button'' (target w) = Some bc"
    and "closest (doc pg) ''collection-entry'' bc = Some ce"
    and "querySelector_in (doc pg) ce span_first_child = Some sp"
    and "node_at (doc pg) sp = Some n"
  shows "click_listener_resume parse w (Http True st (Json data)) pg =
         pg\<lparr>doc := set_children bc
                      (parse (button_text (aw_action w = Add) (interpolate (collectionId w))
                                (interpolate (aw_articleId w)) (textContent n))) (doc pg)\<rparr>"
  using assms by (simp add: click_listener_resume_def Let_def)



lemma click_resume_no_container:
  assumes "status data = ''ok''"
    and "closest (doc pg) ''collection-action-button'' (target w) = None"
  shows "click_listener_resume parse w (Http True st (Json data)) pg = pg"
  using assms by (simp add: click_listener_resume_def Let_def)

lemma hide_all_hidden:
  "matches (hide_all d) ''collections-menu'' q \<Longrightarrow> display_at (hide_all d) q = Some ''none''"
  unfolding hide_all_menus
  by (auto simp: display_at_def elem_at_hide_all matches_def split: option.splits)

lemma closest_children_at: "closest d c p = Some q \<Longrightarrow> children_at d q \<noteq> None"
  using closest_Some [of d c p q] matches_children_at by blast

subsection \<open>Document order around a replaced subtree\<close>












subsection \<open>toggleCollectionsMenu, case by case\<close>






subsection \<open>Finding an element by id after a write\<close>






subsection \<open>Each handler keeps the invariant\<close>














subsection \<open>The parser reads the templates as the elements they spell\<close>

lemma map_prepend_None [simp]: "map_option (prepend None) x = x"
  by (cases x) simp_all

lemma tokens_text:
  "text_safe s \<Longrightarrow> tokens (Data acc) (s @ rest) = tokens (Data (acc @ s)) rest"
  by (induction s arbitrary: acc) (simp_all add: text_safe_def)

lemma tokens_value:
  "value_safe v \<Longrightarrow>
   tokens (AttrValueQuoted tg an acc) (v @ rest) = tokens (AttrValueQuoted tg an (acc @ v)) rest"
  by (induction v arbitrary: acc) (simp_all add: value_safe_def)

lemmas tok_simps = unread_def is_space_def is_lower_def is_upper_def attr_name_step_def
  before_attr_name_step_def unquoted_step_def

lemma tokens_button:
  assumes "value_safe c" "value_safe a" "value_safe n"
  shows "tokens (Data []) (button_text r c a n @ rest) =
         map_option ((@) (button_tokens r c a n)) (tokens (Data []) rest)"
  using assms
  by (cases r; cases "tokens (Data []) rest") (simp_all add: button_text_def button_tokens_def
       tok_simps tokens_value option.map_comp comp_def)

lemma tokens_entry:
  assumes "value_safe a" "safe_collection c"
  shows "tokens (Data []) (entry_text a c @ rest) =
         map_option ((@) (entry_tokens a c)) (tokens (Data []) rest)"
proof -
  have b: "tokens (Data []) (button_text (contains c) (cid c) a (cname c) @ r) =
           map_option ((@) (button_tokens (contains c) (cid c) a (cname c))) (tokens (Data []) r)" for r
    using assms by (simp add: tokens_button safe_collection_def)
  have v: "value_safe (cid c)" and t: "text_safe (cname c)"
    using assms by (simp_all add: safe_collection_def)
  show ?thesis
    by (cases "tokens (Data []) rest")
       (simp_all add: entry_text_def entry_tokens_def Let_def tok_simps tokens_value [OF v]
          tokens_text [OF t] b option.map_comp comp_def)
qed

lemma tokens_entries:
  assumes "value_safe a" "list_all safe_collection cs"
  shows "tokens (Data []) (concat (map (entry_text a) cs) @ rest) =
         map_option ((@) (concat (map (entry_tokens a) cs))) (tokens (Data []) rest)"
  using assms(2)
proof (induction cs)
  case Nil
  show ?case by (cases "tokens (Data []) rest") simp_all
next
  case (Cons c cs)
  then have c: "safe_collection c"
    and ih: "tokens (Data []) (concat (map (entry_text a) cs) @ rest) =
             map_option ((@) (concat (map (entry_tokens a) cs))) (tokens (Data []) rest)"
    by simp_all
  show ?case
    by (cases "tokens (Data []) rest") (simp_all add: tokens_entry [OF assms(1) c] ih)
qed

lemma fold_append_concat: "fold (\<lambda>c acc. acc @ f c) cs init = init @ concat (map f cs)"
  by (induction cs arbitrary: init) simp_all

lemma tokens_collections:
  assumes "value_safe a" "safe_collections cs"
  shows "tokens (Data []) (collections_text a cs) = Some (collections_tokens a cs)"
proof (cases "nonempty cs")
  case False
  then show ?thesis
    by (simp add: collections_text_def collections_tokens_def empty_tokens_def tok_simps)
next
  case True
  have s: "list_all safe_collection (case cs of None \<Rightarrow> [] | Some l \<Rightarrow> l)"
    using assms(2) by (simp add: safe_collections_def)
  show ?thesis
    using True
    by (simp add: collections_text_def collections_tokens_def Let_def fold_append_concat tok_simps
          tokens_entries [OF assms(1) s] footer_tokens_def)
qed

lemmas build_simps = insertable_def element_of_def style_display_def is_space_def el_def

lemma build_button:
  assumes "''button'' \<notin> set (map (tag \<circ> fst) fs)" "tag e \<noteq> ''button''"
  shows "build ((e, kids) # fs) roots (button_tokens r c a n @ ts) =
         build ((e, kids @ [button_node r c a n]) # fs) roots ts"
  using assms
  by (simp add: button_tokens_def build_simps button_node_def remove_button_node_def
        add_button_node_def)

lemma build_button_top: "build [] [] (button_tokens r c a n) = Some [button_node r c a n]"
  by (simp add: button_tokens_def build_simps button_node_def remove_button_node_def
        add_button_node_def)

lemma build_entry:
  assumes "''button'' \<notin> set (map (tag \<circ> fst) fs)" "tag e \<noteq> ''button''"
  shows "build ((e, kids) # fs) roots (entry_tokens a c @ ts) =
         build ((e, kids @ [entry_node a c]) # fs) roots ts"
  using assms
  by (simp add: entry_tokens_def build_simps build_button entry_node_def text_nodes_def)

lemma build_entries:
  assumes "''button'' \<notin> set (map (tag \<circ> fst) fs)" "tag e \<noteq> ''button''"
  shows "build ((e, kids) # fs) roots (concat (map (entry_tokens a) cs) @ ts) =
         build ((e, kids @ map (entry_node a) cs) # fs) roots ts"
  by (induction cs arbitrary: kids) (simp_all add: build_entry [OF assms])

lemma build_collections: "build [] [] (collections_tokens a cs) = Some (collections_nodes a cs)"
proof (cases "nonempty cs")
  case False
  then show ?thesis
    by (simp add: collections_tokens_def empty_tokens_def collections_nodes_def build_simps)
next
  case True
  have e: "build [(\<lparr>tag = ''div'', eid = [], classes = [''collections-list-container''],
                    attrs = [], display = []\<rparr>, [])] [] (concat (map (entry_tokens a) l) @ ts) =
           build [(\<lparr>tag = ''div'', eid = [], classes = [''collections-list-container''],
                    attrs = [], display = []\<rparr>, [] @ map (entry_node a) l)] [] ts" for l ts
    by (rule build_entries) simp_all
  show ?thesis
    using True
    by (simp add: collections_tokens_def collections_nodes_def build_simps e footer_tokens_def)
qed

lemma html_fragment_collections:
  assumes "value_safe a" "safe_collections cs"
  shows "html_fragment (collections_text a cs) = Some (collections_nodes a cs)"
  unfolding html_fragment_def tokens_collections [OF assms] option.case
  by (rule build_collections)

lemma html_fragment_button:
  assumes "value_safe c" "value_safe a" "value_safe n"
  shows "html_fragment (button_text r c a n) = Some [button_node r c a n]"
proof -
  have "tokens (Data []) (button_text r c a n @ []) = Some (button_tokens r c a n)"
    unfolding tokens_button [OF assms] by simp
  then show ?thesis
    by (simp add: html_fragment_def build_button_top)
qed

lemma reads_templates_read_html: "reads_templates read_html"
  by (simp add: reads_templates_def read_html_def html_fragment_collections html_fragment_button)

text \<open>The two constants are read as the nodes written for them.\<close>

lemma constants_read:
  "html_fragment ''Loading...'' = Some [Text ''Loading...'']"
  "html_fragment error_text = Some error_html"
  by (simp_all add: html_fragment_def error_text_def error_html_def tok_simps build_simps)

subsection \<open>Safe documents stay safe\<close>

lemma value_safe_append [simp]: "value_safe (a @ b) = (value_safe a \<and> value_safe b)"
  by (simp add: value_safe_def)



















subsection \<open>What the two continuations write, for a parser that reads the templates\<close>



subsection \<open>Every event keeps the invariant and the safety of the page\<close>








section \<open>At most one menu is shown\<close>





section \<open>Opening and closing a menu\<close>

text \<open>
  C2. \<open>toggleCollectionsMenu\<close> returns without a request in two cases. (1) The targeted
  menu has display \<open>block\<close>: it gets display \<open>none\<close>. (2) The menu is not shown and its
  content div's \<open>loaded\<close> flag is set: it gets display \<open>block\<close>. In both the handler
  ends there, the only effect is \<open>stopPropagation\<close>, and nothing but display values
  changes in the document.
\<close>

theorem toggle_without_request:
  assumes "getElementById menuId (doc pg) = Some t"
  shows "(display_at (doc pg) t = Some ''block'' \<longrightarrow>
            (\<exists>pg'. toggleCollectionsMenu menuId pg = Done pg' \<and>
                   effects pg' = effects pg @ [StopPropagation] \<and>
                   display_at (doc pg') t = Some ''none'' \<and>
                   strip (doc pg') = strip (doc pg))) \<and>
         (display_at (doc pg) t \<noteq> Some ''block'' \<and>
          querySelector_in (doc pg) t (\<lambda>n. matches n ''collections-menu-content'') = Some c \<and>
          truthy (attr_at (doc pg) c ''data-loaded'') \<longrightarrow>
            (\<exists>pg'. toggleCollectionsMenu menuId pg = Done pg' \<and>
                   effects pg' = effects pg @ [StopPropagation] \<and>
                   display_at (doc pg') t = Some ''block'' \<and>
                   strip (doc pg') = strip (doc pg)))"
proof -
  let ?d1 = "hide_others menuId (doc pg)"
  have valid: "elem_at ?d1 t \<noteq> None"
    using getElementById_elem [OF assms] by (simp add: hide_others_elem_valid)
  have q: "querySelector_in (set_display t v ?d1) t (\<lambda>n. matches n ''collections-menu-content'') =
           querySelector_in (doc pg) t (\<lambda>n. matches n ''collections-menu-content'')" for v
    by (rule querySelector_in_class_strip_eq [OF strip_toggled])
  have a: "attr_at (set_display t v ?d1) c k = attr_at (doc pg) c k" for v k
    by (rule strip_eq_attr_at [OF strip_toggled])
  show ?thesis
    using assms valid
    by (simp add: toggleCollectionsMenu_def Let_def emit_def display_at_hide_others_target
        display_at_set_display strip_toggled q a)
qed

theorem toggle_without_request_witness:
  "getElementById ''collections-menu-8'' (doc sample_page) = Some [3, 1] \<and>
   display_at (doc sample_page) [3, 1] = Some ''block'' \<and>
   (\<exists>pg'. toggleCollectionsMenu ''collections-menu-8'' sample_page = Done pg' \<and>
          effects pg' = effects sample_page @ [StopPropagation] \<and>
          display_at (doc pg') [3, 1] = Some ''none'') \<and>
   getElementById ''collections-menu-8'' (doc (sample_page\<lparr>doc := hide_all sample_doc\<rparr>)) = Some [3, 1] \<and>
   display_at (doc (sample_page\<lparr>doc := hide_all sample_doc\<rparr>)) [3, 1] = Some ''none'' \<and>
   querySelector_in (doc (sample_page\<lparr>doc := hide_all sample_doc\<rparr>)) [3, 1]
     (\<lambda>n. matches n ''collections-menu-content'') = Some [3, 1, 0] \<and>
   truthy (attr_at (doc (sample_page\<lparr>doc := hide_all sample_doc\<rparr>)) [3, 1, 0] ''data-loaded'') \<and>
   (\<exists>pg'. toggleCollectionsMenu ''collections-menu-8'' (sample_page\<lparr>doc := hide_all sample_doc\<rparr>) = Done pg' \<and>
          effects pg' = effects (sample_page\<lparr>doc := hide_all sample_doc\<rparr>) @ [StopPropagation] \<and>
          display_at (doc pg') [3, 1] = Some ''block'')"
proof -
  let ?closed = "sample_page\<lparr>doc := hide_all sample_doc\<rparr>"
  have g1: "getElementById ''collections-menu-8'' (doc sample_page) = Some [3, 1]" by code_simp
  have d1: "display_at (doc sample_page) [3, 1] = Some ''block''" by code_simp
  have g2: "getElementById ''collections-menu-8'' (doc ?closed) = Some [3, 1]" by code_simp
  have d2: "display_at (doc ?closed) [3, 1] = Some ''none''" by code_simp
  have q2: "querySelector_in (doc ?closed) [3, 1] (\<lambda>n. matches n ''collections-menu-content'')
              = Some [3, 1, 0]" by code_simp
  have l2: "truthy (attr_at (doc ?closed) [3, 1, 0] ''data-loaded'')" by code_simp
  from toggle_without_request [OF g1, of "[3, 1, 0]"] toggle_without_request [OF g2, of "[3, 1, 0]"]
    g1 d1 g2 d2 q2 l2
  show ?thesis by auto
qed

text \<open>
  C8. When \<open>toggleCollectionsMenu\<close> opens a menu whose content is not loaded, the content
  div's children become the text \<open>Loading...\<close>, the menu has display \<open>block\<close>, and the
  handler suspends on a GET of \<open>/article/{articleId}/collections_status\<close>, where
  \<open>articleId\<close> is the last piece of the menu's id split at \<open>-\<close>: what follows the last
  \<open>-\<close>, or the whole id when it has none.
\<close>

theorem toggle_loads:
  assumes "getElementById menuId (doc pg) = Some t"
    and "display_at (doc pg) t \<noteq> Some ''block''"
    and "querySelector_in (doc pg) t (\<lambda>n. matches n ''collections-menu-content'') = Some c"
    and "\<not> truthy (attr_at (doc pg) c ''data-loaded'')"
  shows "(\<exists>pg'. toggleCollectionsMenu menuId pg =
                  Await pg' \<lparr>contentDiv = c, lw_articleId = last (split_str CHR ''-'' menuId)\<rparr> \<and>
                effects pg' = effects pg @
                  [StopPropagation,
                   Fetch \<lparr>http_method = ''GET'',
                          url = ''/article/'' @ last (split_str CHR ''-'' menuId) @ ''/collections_status'',
                          headers = [], body = None\<rparr>] \<and>
                children_at (doc pg') c = Some [Text ''Loading...''] \<and>
                display_at (doc pg') t = Some ''block'') \<and>
         (\<forall>pre seg. menuId = pre @ CHR ''-'' # seg \<and> CHR ''-'' \<notin> set seg \<longrightarrow>
                    last (split_str CHR ''-'' menuId) = seg) \<and>
         (CHR ''-'' \<notin> set menuId \<longrightarrow> last (split_str CHR ''-'' menuId) = menuId)"
proof -
  let ?d1 = "hide_others menuId (doc pg)"
  let ?d2 = "set_display t ''block'' ?d1"
  have valid: "elem_at ?d1 t \<noteq> None"
    using getElementById_elem [OF assms(1)] by (simp add: hide_others_elem_valid)
  have q: "querySelector_in ?d2 t (\<lambda>n. matches n ''collections-menu-content'') = Some c"
    using querySelector_in_class_strip_eq [OF strip_toggled] assms(3) by simp
  have a: "attr_at ?d2 c k = attr_at (doc pg) c k" for k
    by (rule strip_eq_attr_at [OF strip_toggled])
  from querySelector_in_Some [OF q] have tc: "strict_prefix t c"
    and mc: "matches ?d2 ''collections-menu-content'' c" by simp_all
  have ch: "children_at (set_children c [Text ''Loading...''] ?d2) c = Some [Text ''Loading...'']"
    by (rule children_at_set_children [OF matches_children_at [OF mc]])
  from tc have "\<not> strict_prefix c t" by (auto simp: strict_prefix_def prefix_order.antisym)
  then have dt: "display_at (set_children c [Text ''Loading...''] ?d2) t = Some ''block''"
    using valid display_at_set_display [of ?d1 t "''block''"]
    by (simp add: display_at_def elem_at_set_children)
  have 1: "\<exists>pg'. toggleCollectionsMenu menuId pg =
                  Await pg' \<lparr>contentDiv = c, lw_articleId = last (split_str CHR ''-'' menuId)\<rparr> \<and>
                effects pg' = effects pg @
                  [StopPropagation,
                   Fetch \<lparr>http_method = ''GET'',
                          url = ''/article/'' @ last (split_str CHR ''-'' menuId) @ ''/collections_status'',
                          headers = [], body = None\<rparr>] \<and>
                children_at (doc pg') c = Some [Text ''Loading...''] \<and>
                display_at (doc pg') t = Some ''block''"
    using assms valid ch dt
    by (simp add: toggleCollectionsMenu_def Let_def emit_def display_at_hide_others_target q a
        get_request_def status_url_def)
  show ?thesis using 1 by (simp add: last_split_str last_split_str_plain)
qed

theorem toggle_loads_witness:
  "getElementById ''collections-menu-7'' (doc sample_page) = Some [2, 1] \<and>
   display_at (doc sample_page) [2, 1] \<noteq> Some ''block'' \<and>
   querySelector_in (doc sample_page) [2, 1] (\<lambda>n. matches n ''collections-menu-content'') = Some [2, 1, 0] \<and>
   \<not> truthy (attr_at (doc sample_page) [2, 1, 0] ''data-loaded'') \<and>
   (\<exists>pg'. toggleCollectionsMenu ''collections-menu-7'' sample_page =
            Await pg' \<lparr>contentDiv = [2, 1, 0], lw_articleId = ''7''\<rparr> \<and>
          effects pg' = effects sample_page @
            [StopPropagation,
             Fetch \<lparr>http_method = ''GET'', url = ''/article/7/collections_status'',
                    headers = [], body = None\<rparr>] \<and>
          children_at (doc pg') [2, 1, 0] = Some [Text ''Loading...''] \<and>
          display_at (doc pg') [2, 1] = Some ''block'')"
proof -
  have g: "getElementById ''collections-menu-7'' (doc sample_page) = Some [2, 1]" by code_simp
  have d: "display_at (doc sample_page) [2, 1] \<noteq> Some ''block''" by code_simp
  have q: "querySelector_in (doc sample_page) [2, 1] (\<lambda>n. matches n ''collections-menu-content'')
             = Some [2, 1, 0]" by code_simp
  have l: "\<not> truthy (attr_at (doc sample_page) [2, 1, 0] ''data-loaded'')" by code_simp
  have s: "last (split_str CHR ''-'' ''collections-menu-7'') = ''7''" by code_simp
  from toggle_loads [OF g d q l] g d q l s show ?thesis by auto
qed

section \<open>Rendering the collections of an article\<close>

lemma loaded_doc_below:
  assumes "children_at d c \<noteq> None"
  shows "node_at (set_attr c k v (set_children c frag d)) (c @ i # r) =
         (if i < length frag then node_at (frag ! i) r else None)"
proof -
  have "c @ i # r \<noteq> c" "\<not> prefix (c @ i # r) c" by (auto simp: prefix_def)
  then have "node_at (set_attr c k v (set_children c frag d)) (c @ i # r) =
             node_at (set_children c frag d) (c @ i # r)"
    unfolding set_attr_def by (rule node_at_update_elem_other)
  then show ?thesis using assms by (auto simp: node_at_set_children_below)
qed

lemma loaded_doc_self:
  assumes "node_at d c = Some (Element e cs)"
  shows "node_at (set_attr c k v (set_children c frag d)) c =
         Some (Element (e\<lparr>attrs := AList.update k v (attrs e)\<rparr>) frag)"
  using set_children_at [OF assms, of frag "[]"]
  by (simp add: set_attr_def node_at_update_elem_self)

lemma map_of_update_same: "map_of (AList.update k v al) k = Some v"
  by (simp add: update_conv')

lemma resume_ok_doc:
  assumes "reads_templates parse" and "value_safe a" and "safe_collections (collections data)"
    and "status data = ''ok''"
  shows "toggleCollectionsMenu_resume parse \<lparr>contentDiv = c, lw_articleId = a\<rparr> (Http True st (Json data)) pg =
         pg\<lparr>doc := set_attr c ''data-loaded'' ''true''
                      (set_children c (collections_nodes a (collections data)) (doc pg))\<rparr>"
proof -
  from assms(1,2,3) have "parse (collections_text a (collections data)) =
                          collections_nodes a (collections data)"
    unfolding reads_templates_def by blast
  then show ?thesis using assms(4) by (simp add: toggleCollectionsMenu_resume_def)
qed

lemma no_list_container_when_empty:
  "\<not> nonempty cs \<Longrightarrow> list_all (class_free ''collections-list-container'') (collections_nodes a cs)"
  by (simp add: collections_nodes_def el_def)

text \<open>
  C3, as the claim states it, fails: the name of an entry is pasted into the row
  unescaped. For a reply whose one collection is named \<open><i>Hot</i>\<close> the browser
  builds an \<open>i\<close> element in the first span of the row, and the text of the row is
  \<open>Hot\<close>, not the collection's name.
\<close>

theorem markup_in_a_name_counterexample:
  "status \<lparr>status = ''ok'', message = None, collections = Some element_in_name\<rparr> = ''ok'' \<and>
   children_at (doc sample_page) [2, 1, 0] \<noteq> None \<and>
   \<not> safe_collections (Some element_in_name) \<and>
   html_fragment (collections_text ''7'' (Some element_in_name)) \<noteq> None \<and>
   map_option cname (Some (element_in_name ! 0)) = Some ''<i>Hot</i>'' \<and>
   map_option textContent (node_at (doc (toggleCollectionsMenu_resume read_html
       \<lparr>contentDiv = [2, 1, 0], lw_articleId = ''7''\<rparr> (ok_reply (Some element_in_name))
       sample_page)) [2, 1, 0, 0, 0, 0]) = Some ''Hot'' \<and>
   map_option tag (elem_at (doc (toggleCollectionsMenu_resume read_html
       \<lparr>contentDiv = [2, 1, 0], lw_articleId = ''7''\<rparr> (ok_reply (Some element_in_name))
       sample_page)) [2, 1, 0, 0, 0, 0, 0]) = Some ''i''"
  by code_simp

text \<open>
  C3, amended. Let the browser read the script's templates, filled with values free of
  markup characters, as the elements they spell, and let the article id and the ids of
  the reply hold no double quote, \<open>&\<close>, NUL or CR, and the names none of these and no
  \<open><\<close>. Then on a successful load (HTTP ok, body status \<open>ok\<close>) the content div gets the
  rendered collections, its \<open>loaded\<close> flag becomes \<open>true\<close> and nothing is logged. With a
  non-empty list the content is a list container with one row per entry, in order, and
  a footer with a link to \<open>/collections\<close>; row \<open>i\<close> holds the entry's name and, inside
  the \<open>collection-action-button\<close> span, one button: of class
  \<open>btn-remove-from-collection\<close> when \<open>contains\<close> is true and of class
  \<open>btn-add-to-collection\<close> otherwise, with \<open>data-collection-id\<close> the entry's id and
  \<open>data-article-id\<close> the article id. With an empty or absent list the content is the
  message \<open>No collections yet. Create one.\<close>, with a link to \<open>/collections\<close> and no
  element of class \<open>collections-list-container\<close>.
\<close>

theorem successful_load_renders:
  assumes "reads_templates parse" and "value_safe a" and "safe_collections (collections data)"
    and "status data = ''ok''" and "children_at (doc pg) c \<noteq> None"
  shows "effects (toggleCollectionsMenu_resume parse \<lparr>contentDiv = c, lw_articleId = a\<rparr>
                   (Http True st (Json data)) pg) = effects pg \<and>
         attr_at (doc (toggleCollectionsMenu_resume parse \<lparr>contentDiv = c, lw_articleId = a\<rparr>
                   (Http True st (Json data)) pg)) c ''data-loaded'' = Some ''true'' \<and>
         children_at (doc (toggleCollectionsMenu_resume parse \<lparr>contentDiv = c, lw_articleId = a\<rparr>
                   (Http True st (Json data)) pg)) c = Some (collections_nodes a (collections data)) \<and>
         (let d' = doc (toggleCollectionsMenu_resume parse \<lparr>contentDiv = c, lw_articleId = a\<rparr>
                   (Http True st (Json data)) pg)
          in case collections data of
               Some (x # xs) \<Rightarrow>
                 length (collections_nodes a (collections data)) = 2 \<and>
                 matches d' ''collections-list-container'' (c @ [0]) \<and>
                 map_option length (children_at d' (c @ [0])) = Some (length (x # xs)) \<and>
                 (\<forall>i < length (x # xs).
                    matches d' ''collection-entry'' (c @ [0, i]) \<and>
                    map_option textContent (node_at d' (c @ [0, i, 0])) = Some (cname ((x # xs) ! i)) \<and>
                    matches d' ''collection-action-button'' (c @ [0, i, 1]) \<and>
                    map_option length (children_at d' (c @ [0, i, 1])) = Some 1 \<and>
                    map_option tag (elem_at d' (c @ [0, i, 1, 0])) = Some ''button'' \<and>
                    matches d' ''btn-remove-from-collection'' (c @ [0, i, 1, 0]) = contains ((x # xs) ! i) \<and>
                    matches d' ''btn-add-to-collection'' (c @ [0, i, 1, 0]) = (\<not> contains ((x # xs) ! i)) \<and>
                    attr_at d' (c @ [0, i, 1, 0]) ''data-collection-id'' = Some (cid ((x # xs) ! i)) \<and>
                    attr_at d' (c @ [0, i, 1, 0]) ''data-article-id'' = Some a) \<and>
                 matches d' ''collections-menu-footer'' (c @ [1]) \<and>
                 map_option tag (elem_at d' (c @ [1, 0])) = Some ''a'' \<and>
                 attr_at d' (c @ [1, 0]) ''href'' = Some ''/collections''
             | _ \<Rightarrow>
                 map_option textContent (node_at d' c) = Some ''No collections yet. Create one.'' \<and>
                 map_option tag (elem_at d' (c @ [0, 1])) = Some ''a'' \<and>
                 attr_at d' (c @ [0, 1]) ''href'' = Some ''/collections'' \<and>
                 map_option textContent (node_at d' (c @ [0, 1])) = Some ''Create one'' \<and>
                 (\<forall>q. strict_prefix c q \<longrightarrow> \<not> matches d' ''collections-list-container'' q))"
proof -
  let ?frag = "collections_nodes a (collections data)"
  let ?d' = "set_attr c ''data-loaded'' ''true'' (set_children c ?frag (doc pg))"
  note R = resume_ok_doc [OF assms(1,2,3,4), of c st pg]
  from assms(5) obtain e cs0 where ne: "node_at (doc pg) c = Some (Element e cs0)"
    by (auto simp: children_at_def split: option.splits node.splits)
  note self = loaded_doc_self [OF ne, of "''data-loaded''" "''true''" ?frag]
  have below: "node_at ?d' (c @ i # r) = (if i < length ?frag then node_at (?frag ! i) r else None)"
    for i r by (rule loaded_doc_below [OF assms(5)])
  have 1: "attr_at ?d' c ''data-loaded'' = Some ''true''"
    using self by (simp add: attr_at_def elem_at_def map_of_update_same)
  have 2: "children_at ?d' c = Some ?frag"
    using self by (simp add: children_at_def)
  have 3: "case collections data of
               Some (x # xs) \<Rightarrow>
                 length (collections_nodes a (collections data)) = 2 \<and>
                 matches ?d' ''collections-list-container'' (c @ [0]) \<and>
                 map_option length (children_at ?d' (c @ [0])) = Some (length (x # xs)) \<and>
                 (\<forall>i < length (x # xs).
                    matches ?d' ''collection-entry'' (c @ [0, i]) \<and>
                    map_option textContent (node_at ?d' (c @ [0, i, 0])) = Some (cname ((x # xs) ! i)) \<and>
                    matches ?d' ''collection-action-button'' (c @ [0, i, 1]) \<and>
                    map_option length (children_at ?d' (c @ [0, i, 1])) = Some 1 \<and>
                    map_option tag (elem_at ?d' (c @ [0, i, 1, 0])) = Some ''button'' \<and>
                    matches ?d' ''btn-remove-from-collection'' (c @ [0, i, 1, 0]) = contains ((x # xs) ! i) \<and>
                    matches ?d' ''btn-add-to-collection'' (c @ [0, i, 1, 0]) = (\<not> contains ((x # xs) ! i)) \<and>
                    attr_at ?d' (c @ [0, i, 1, 0]) ''data-collection-id'' = Some (cid ((x # xs) ! i)) \<and>
                    attr_at ?d' (c @ [0, i, 1, 0]) ''data-article-id'' = Some a) \<and>
                 matches ?d' ''collections-menu-footer'' (c @ [1]) \<and>
                 map_option tag (elem_at ?d' (c @ [1, 0])) = Some ''a'' \<and>
                 attr_at ?d' (c @ [1, 0]) ''href'' = Some ''/collections''
             | _ \<Rightarrow>
                 map_option textContent (node_at ?d' c) = Some ''No collections yet. Create one.'' \<and>
                 map_option tag (elem_at ?d' (c @ [0, 1])) = Some ''a'' \<and>
                 attr_at ?d' (c @ [0, 1]) ''href'' = Some ''/collections'' \<and>
                 map_option textContent (node_at ?d' (c @ [0, 1])) = Some ''Create one'' \<and>
                 (\<forall>q. strict_prefix c q \<longrightarrow> \<not> matches ?d' ''collections-list-container'' q)"
  proof (cases "nonempty (collections data)")
    case True
    then obtain x xs where cs: "collections data = Some (x # xs)"
      by (cases "collections data"; cases "the (collections data)") auto
    have frag: "?frag =
        [el ''div'' [''collections-list-container''] [] (map (entry_node a) (x # xs)),
         el ''div'' [''collections-menu-footer''] []
           [el ''a'' [] [(''href'', ''/collections'')]
              [el ''i'' [''fas'', ''fa-cog''] [] [], Text '' Manage Collections'']]]"
      using cs by (simp add: collections_nodes_def)
    have row: "i < length (x # xs) \<Longrightarrow>
        node_at ?d' (c @ 0 # i # r) = node_at (entry_node a ((x # xs) ! i)) r" for i r
    proof -
      assume i: "i < length (x # xs)"
      have "node_at ?d' (c @ 0 # i # r) = node_at (?frag ! 0) (i # r)"
        unfolding below by (simp add: frag)
      also have "\<dots> = node_at (map (entry_node a) (x # xs) ! i) r"
        using i by (simp add: frag el_def)
      also have "\<dots> = node_at (entry_node a ((x # xs) ! i)) r"
        using i by (simp only: nth_map)
      finally show ?thesis .
    qed
    have rows: "\<forall>i < length (x # xs).
                    matches ?d' ''collection-entry'' (c @ [0, i]) \<and>
                    map_option textContent (node_at ?d' (c @ [0, i, 0])) = Some (cname ((x # xs) ! i)) \<and>
                    matches ?d' ''collection-action-button'' (c @ [0, i, 1]) \<and>
                    map_option length (children_at ?d' (c @ [0, i, 1])) = Some 1 \<and>
                    map_option tag (elem_at ?d' (c @ [0, i, 1, 0])) = Some ''button'' \<and>
                    matches ?d' ''btn-remove-from-collection'' (c @ [0, i, 1, 0]) = contains ((x # xs) ! i) \<and>
                    matches ?d' ''btn-add-to-collection'' (c @ [0, i, 1, 0]) = (\<not> contains ((x # xs) ! i)) \<and>
                    attr_at ?d' (c @ [0, i, 1, 0]) ''data-collection-id'' = Some (cid ((x # xs) ! i)) \<and>
                    attr_at ?d' (c @ [0, i, 1, 0]) ''data-article-id'' = Some a"
    proof (intro allI impI)
      fix i
      assume i: "i < length (x # xs)"
      show "matches ?d' ''collection-entry'' (c @ [0, i]) \<and>
                    map_option textContent (node_at ?d' (c @ [0, i, 0])) = Some (cname ((x # xs) ! i)) \<and>
                    matches ?d' ''collection-action-button'' (c @ [0, i, 1]) \<and>
                    map_option length (children_at ?d' (c @ [0, i, 1])) = Some 1 \<and>
                    map_option tag (elem_at ?d' (c @ [0, i, 1, 0])) = Some ''button'' \<and>
                    matches ?d' ''btn-remove-from-collection'' (c @ [0, i, 1, 0]) = contains ((x # xs) ! i) \<and>
                    matches ?d' ''btn-add-to-collection'' (c @ [0, i, 1, 0]) = (\<not> contains ((x # xs) ! i)) \<and>
                    attr_at ?d' (c @ [0, i, 1, 0]) ''data-collection-id'' = Some (cid ((x # xs) ! i)) \<and>
                    attr_at ?d' (c @ [0, i, 1, 0]) ''data-article-id'' = Some a"
        unfolding matches_def attr_at_def elem_at_def children_at_def
        by (simp only: row [OF i] append_Cons append_Nil)
           (simp add: entry_node_def button_node_def remove_button_node_def add_button_node_def el_def text_nodes_def
            Let_def)
    qed
    have rest: "length ?frag = 2 \<and>
                 matches ?d' ''collections-list-container'' (c @ [0]) \<and>
                 map_option length (children_at ?d' (c @ [0])) = Some (length (x # xs)) \<and>
                 matches ?d' ''collections-menu-footer'' (c @ [1]) \<and>
                 map_option tag (elem_at ?d' (c @ [1, 0])) = Some ''a'' \<and>
                 attr_at ?d' (c @ [1, 0]) ''href'' = Some ''/collections''"
      unfolding matches_def attr_at_def elem_at_def children_at_def
      by (simp only: below append_Cons append_Nil) (simp add: frag el_def)
    show ?thesis using rows rest unfolding cs by simp
  next
    case False
    then have frag: "?frag = [el ''div'' [] []
           [Text ''No collections yet. '',
            el ''a'' [] [(''href'', ''/collections'')] [Text ''Create one''],
            Text ''.'']]"
      by (simp add: collections_nodes_def)
    have a: "map_option textContent (node_at ?d' c) = Some ''No collections yet. Create one.''"
      by (simp only: self) (simp add: frag el_def)
    have b: "map_option tag (elem_at ?d' (c @ [0, 1])) = Some ''a'' \<and>
                 attr_at ?d' (c @ [0, 1]) ''href'' = Some ''/collections'' \<and>
                 map_option textContent (node_at ?d' (c @ [0, 1])) = Some ''Create one''"
      unfolding matches_def attr_at_def elem_at_def children_at_def
      by (simp only: below append_Cons append_Nil) (simp add: frag el_def)
    have cN: "\<not> matches ?d' ''collections-list-container'' q" if "strict_prefix c q" for q
    proof
      assume "matches ?d' ''collections-list-container'' q"
      then have "matches (set_children c ?frag (doc pg)) ''collections-list-container'' q"
        by (simp add: set_attr_menus)
      from matches_set_children [OF no_list_container_when_empty [OF False] this] that
      show False by simp
    qed
    from False have "case collections data of Some (x # xs) \<Rightarrow> False | _ \<Rightarrow> True"
      by (auto split: option.splits list.splits)
    then show ?thesis using a b cN by (auto split: option.splits list.splits)
  qed
  show ?thesis unfolding R using 1 2 3 by (simp add: Let_def)
qed

theorem successful_load_renders_witness:
  "reads_templates read_html \<and> value_safe ''7'' \<and>
   safe_collections (Some sample_collections) \<and> safe_collections (Some []) \<and>
   status \<lparr>status = ''ok'', message = None, collections = Some sample_collections\<rparr> = ''ok'' \<and>
   children_at (doc sample_page) [2, 1, 0] \<noteq> None \<and>
   attr_at (doc (toggleCollectionsMenu_resume read_html \<lparr>contentDiv = [2, 1, 0], lw_articleId = ''7''\<rparr>
       (Http True 200 (Json \<lparr>status = ''ok'', message = None, collections = Some sample_collections\<rparr>))
       sample_page)) [2, 1, 0] ''data-loaded'' = Some ''true'' \<and>
   matches (doc (toggleCollectionsMenu_resume read_html \<lparr>contentDiv = [2, 1, 0], lw_articleId = ''7''\<rparr>
       (Http True 200 (Json \<lparr>status = ''ok'', message = None, collections = Some sample_collections\<rparr>))
       sample_page)) ''btn-remove-from-collection'' [2, 1, 0, 0, 1, 1, 0] \<and>
   attr_at (doc (toggleCollectionsMenu_resume read_html \<lparr>contentDiv = [2, 1, 0], lw_articleId = ''7''\<rparr>
       (Http True 200 (Json \<lparr>status = ''ok'', message = None, collections = Some sample_collections\<rparr>))
       sample_page)) [2, 1, 0, 0, 1, 1, 0] ''data-collection-id'' = Some ''4'' \<and>
   attr_at (doc (toggleCollectionsMenu_resume read_html \<lparr>contentDiv = [2, 1, 0], lw_articleId = ''7''\<rparr>
       (Http True 200 (Json \<lparr>status = ''ok'', message = None, collections = Some sample_collections\<rparr>))
       sample_page)) [2, 1, 0, 0, 1, 1, 0] ''data-article-id'' = Some ''7'' \<and>
   status \<lparr>status = ''ok'', message = None, collections = Some []\<rparr> = ''ok'' \<and>
   map_option textContent (node_at (doc (toggleCollectionsMenu_resume read_html
       \<lparr>contentDiv = [2, 1, 0], lw_articleId = ''7''\<rparr>
       (Http True 200 (Json \<lparr>status = ''ok'', message = None, collections = Some []\<rparr>))
       sample_page)) [2, 1, 0]) = Some ''No collections yet. Create one.''"
proof -
  let ?data = "\<lparr>status = ''ok'', message = None, collections = Some sample_collections\<rparr>"
  let ?none = "\<lparr>status = ''ok'', message = None, collections = Some ([] :: collection list)\<rparr>"
  let ?w = "\<lparr>contentDiv = [2, 1, 0], lw_articleId = ''7''\<rparr>"
  have s: "status ?data = ''ok''" and s': "status ?none = ''ok''" by simp_all
  note p = reads_templates_read_html
  have v: "value_safe ''7''" by code_simp
  have sc: "safe_collections (Some sample_collections)" and sn: "safe_collections (Some [])"
    by code_simp+
  have sc': "safe_collections (collections ?data)" and sn': "safe_collections (collections ?none)"
    using sc sn by simp_all
  have c: "children_at (doc sample_page) [2, 1, 0] \<noteq> None" by code_simp
  have cs: "collections ?data =
      Some (\<lparr>cid = ''3'', cname = ''Reading'', contains = False\<rparr> #
            [\<lparr>cid = ''4'', cname = ''Work'', contains = True\<rparr>])"
    by (simp add: sample_collections_def)
  note T = successful_load_renders [OF p v sc' s c, of 200, unfolded Let_def cs option.case list.case]
  have l: "attr_at (doc (toggleCollectionsMenu_resume read_html ?w (Http True 200 (Json ?data)) sample_page))
             [2, 1, 0] ''data-loaded'' = Some ''true''"
    using T by blast
  have "(1::nat) < length [\<lparr>cid = ''3'', cname = ''Reading'', contains = False\<rparr>,
                           \<lparr>cid = ''4'', cname = ''Work'', contains = True\<rparr>]" by simp
  with T have
    "matches (doc (toggleCollectionsMenu_resume read_html ?w (Http True 200 (Json ?data)) sample_page))
       ''btn-remove-from-collection'' ([2, 1, 0] @ [0, 1, 1, 0]) =
       contains ([\<lparr>cid = ''3'', cname = ''Reading'', contains = False\<rparr>,
                  \<lparr>cid = ''4'', cname = ''Work'', contains = True\<rparr>] ! 1) \<and>
     attr_at (doc (toggleCollectionsMenu_resume read_html ?w (Http True 200 (Json ?data)) sample_page))
       ([2, 1, 0] @ [0, 1, 1, 0]) ''data-collection-id'' =
       Some (cid ([\<lparr>cid = ''3'', cname = ''Reading'', contains = False\<rparr>,
                  \<lparr>cid = ''4'', cname = ''Work'', contains = True\<rparr>] ! 1)) \<and>
     attr_at (doc (toggleCollectionsMenu_resume read_html ?w (Http True 200 (Json ?data)) sample_page))
       ([2, 1, 0] @ [0, 1, 1, 0]) ''data-article-id'' = Some ''7''"
    by blast
  then have b: "matches (doc (toggleCollectionsMenu_resume read_html ?w (Http True 200 (Json ?data)) sample_page))
       ''btn-remove-from-collection'' [2, 1, 0, 0, 1, 1, 0] \<and>
     attr_at (doc (toggleCollectionsMenu_resume read_html ?w (Http True 200 (Json ?data)) sample_page))
       [2, 1, 0, 0, 1, 1, 0] ''data-collection-id'' = Some ''4'' \<and>
     attr_at (doc (toggleCollectionsMenu_resume read_html ?w (Http True 200 (Json ?data)) sample_page))
       [2, 1, 0, 0, 1, 1, 0] ''data-article-id'' = Some ''7''"
    by simp
  have cs': "collections ?none = Some []" by simp
  from successful_load_renders [OF p v sn' s' c, of 200, unfolded Let_def cs' option.case list.case]
  have e: "map_option textContent (node_at (doc (toggleCollectionsMenu_resume read_html ?w
       (Http True 200 (Json ?none)) sample_page)) [2, 1, 0]) = Some ''No collections yet. Create one.''"
    by blast
  from p v sc sn s c l b s' e show ?thesis by blast
qed

section \<open>Adding an article to a collection and removing it\<close>

lemma new_button_facts:
  assumes "node_at d p = Some (button_node (a = Add) cId aId name)"
  shows "map_option tag (elem_at d p) = Some ''button'' \<and>
         matches d ''btn-remove-from-collection'' p = (a = Add) \<and>
         matches d ''btn-add-to-collection'' p = (a = Remove) \<and>
         attr_at d p ''data-collection-id'' = Some cId \<and>
         attr_at d p ''data-article-id'' = Some aId \<and>
         attr_at d p ''title'' = Some ((if a = Add then ''Remove from '' else ''Add to '') @ name)"
  unfolding matches_def attr_at_def elem_at_def assms
  by (cases a) (simp_all add: button_node_def remove_button_node_def add_button_node_def el_def)

text \<open>
  C4, as the claim states it, fails: the row's name is pasted into the title of the new
  button unescaped. In a row named \<open>Say "hi"\<close> the first double quote of the name ends
  the attribute value: the title of the new button is \<open>Remove from Say \<close>, and the rest
  of the name becomes an attribute of its own.
\<close>

theorem quoted_name_counterexample:
  \<open>matches (doc quoted_row_page) ''btn-add-to-collection'' [0, 1, 0] \<and>
   suspended (click_listener [0, 1, 0] quoted_row_page) =
     Some \<lparr>target = [0, 1, 0], aw_action = Add, collectionId = Some ''3'',
           aw_articleId = Some ''8''\<rparr> \<and>
   closest (doc quoted_row_page) ''collection-action-button'' [0, 1, 0] = Some [0, 1] \<and>
   closest (doc quoted_row_page) ''collection-entry'' [0, 1] = Some [0] \<and>
   querySelector_in (doc quoted_row_page) [0] span_first_child = Some [0, 0] \<and>
   map_option textContent (node_at (doc quoted_row_page) [0, 0]) = Some ''Say "hi"'' \<and>
   \<not> value_safe ''Say "hi"'' \<and>
   html_fragment (button_text True ''3'' ''8'' ''Say "hi"'') \<noteq> None \<and>
   matches (doc (click_listener_resume read_html
        \<lparr>target = [0, 1, 0], aw_action = Add, collectionId = Some ''3'', aw_articleId = Some ''8''\<rparr>
        (ok_reply None) (outcome_page (click_listener [0, 1, 0] quoted_row_page))))
      ''btn-remove-from-collection'' [0, 1, 0] \<and>
   attr_at (doc (click_listener_resume read_html
        \<lparr>target = [0, 1, 0], aw_action = Add, collectionId = Some ''3'', aw_articleId = Some ''8''\<rparr>
        (ok_reply None) (outcome_page (click_listener [0, 1, 0] quoted_row_page))))
      [0, 1, 0] ''title'' = Some ''Remove from Say '' \<and>
   attr_at (doc (click_listener_resume read_html
        \<lparr>target = [0, 1, 0], aw_action = Add, collectionId = Some ''3'', aw_articleId = Some ''8''\<rparr>
        (ok_reply None) (outcome_page (click_listener [0, 1, 0] quoted_row_page))))
      [0, 1, 0] ''hi""'' = Some []\<close>
  by code_simp

text \<open>
  C4, amended. Let the browser read the script's templates, filled with values free of
  markup characters, as the elements they spell. A click on a button of class
  \<open>btn-add-to-collection\<close> or \<open>btn-remove-from-collection\<close> that carries
  \<open>data-collection-id\<close> and \<open>data-article-id\<close>
  prevents the default action and suspends on a POST to
  \<open>/collection/{collectionId}/{action}_article\<close> with body \<open>{article_id: articleId}\<close> and
  the header \<open>X-Requested-With: XMLHttpRequest\<close>, leaving the document as it is. When the
  response is ok with status \<open>ok\<close> and the button then has a container of class
  \<open>collection-action-button\<close> inside a row of class \<open>collection-entry\<close> with a first span,
  and neither the two data attributes nor the text of that span hold a double quote,
  \<open>&\<close>, NUL or CR, the container's content becomes one button of the opposite variant
  with the same two data attributes and the text of that span in its title; nothing is
  logged, every element and text outside the container keeps its fields, and every
  subtree beside it is unchanged.
\<close>

theorem action_success_swaps_button:
  assumes "reads_templates parse" and "value_safe cId" and "value_safe aId"
    and "matches (doc pg) ''btn-add-to-collection'' tg \<or>
           matches (doc pg) ''btn-remove-from-collection'' tg"
    and "attr_at (doc pg) tg ''data-collection-id'' = Some cId"
    and "attr_at (doc pg) tg ''data-article-id'' = Some aId"
    and "a = (if matches (doc pg) ''btn-remove-from-collection'' tg then Remove else Add)"
    and "w = \<lparr>target = tg, aw_action = a, collectionId = Some cId, aw_articleId = Some aId\<rparr>"
  shows "click_listener tg pg =
           Await (pg\<lparr>effects := effects pg @
             [PreventDefault,
              Fetch \<lparr>http_method = ''POST'',
                     url = ''/collection/'' @ cId @ ''/'' @ action_name a @ ''_article'',
                     headers = [(''Content-Type'', ''application/json''),
                                (''X-Requested-With'', ''XMLHttpRequest'')],
                     body = Some (JObject [(''article_id'', JString aId)])\<rparr>]\<rparr>) w \<and>
         (\<forall>pg2 data st bc ce sp n.
              status data = ''ok'' \<and>
              closest (doc pg2) ''collection-action-button'' tg = Some bc \<and>
              closest (doc pg2) ''collection-entry'' bc = Some ce \<and>
              querySelector_in (doc pg2) ce span_first_child = Some sp \<and>
              node_at (doc pg2) sp = Some n \<and> value_safe (textContent n) \<longrightarrow>
              effects (click_listener_resume parse w (Http True st (Json data)) pg2) = effects pg2 \<and>
              (let d3 = doc (click_listener_resume parse w (Http True st (Json data)) pg2)
               in map_option length (children_at d3 bc) = Some 1 \<and>
                  map_option tag (elem_at d3 (bc @ [0])) = Some ''button'' \<and>
                  matches d3 ''btn-remove-from-collection'' (bc @ [0]) = (a = Add) \<and>
                  matches d3 ''btn-add-to-collection'' (bc @ [0]) = (a = Remove) \<and>
                  attr_at d3 (bc @ [0]) ''data-collection-id'' = Some cId \<and>
                  attr_at d3 (bc @ [0]) ''data-article-id'' = Some aId \<and>
                  attr_at d3 (bc @ [0]) ''title'' =
                    Some ((if a = Add then ''Remove from '' else ''Add to '') @ textContent n) \<and>
                  (\<forall>q. \<not> strict_prefix bc q \<longrightarrow>
                       elem_at d3 q = elem_at (doc pg2) q \<and> text_at d3 q = text_at (doc pg2) q) \<and>
                  (\<forall>q. \<not> prefix bc q \<and> \<not> prefix q bc \<longrightarrow> node_at d3 q = node_at (doc pg2) q)))"
proof (intro conjI allI impI)
  show "click_listener tg pg =
           Await (pg\<lparr>effects := effects pg @
             [PreventDefault,
              Fetch \<lparr>http_method = ''POST'',
                     url = ''/collection/'' @ cId @ ''/'' @ action_name a @ ''_article'',
                     headers = [(''Content-Type'', ''application/json''),
                                (''X-Requested-With'', ''XMLHttpRequest'')],
                     body = Some (JObject [(''article_id'', JString aId)])\<rparr>]\<rparr>) w"
    using click_listener_action [OF assms(4)] assms(5-8)
    by (simp add: post_request_def action_url_def)
next
  fix pg2 :: page and data :: reply and st bc ce sp n
  assume h: "status data = ''ok'' \<and>
              closest (doc pg2) ''collection-action-button'' tg = Some bc \<and>
              closest (doc pg2) ''collection-entry'' bc = Some ce \<and>
              querySelector_in (doc pg2) ce span_first_child = Some sp \<and>
              node_at (doc pg2) sp = Some n \<and> value_safe (textContent n)"
  let ?nb = "button_node (a = Add) cId aId (textContent n)"
  have rd: "parse (button_text (a = Add) cId aId (textContent n)) = [?nb]"
    using assms(1,2,3) h unfolding reads_templates_def by blast
  let ?d3 = "set_children bc [?nb] (doc pg2)"
  have r: "click_listener_resume parse w (Http True st (Json data)) pg2 = pg2\<lparr>doc := ?d3\<rparr>"
    using click_resume_success [of data pg2 w bc ce sp n parse st] h assms(8) rd by simp
  have valid: "children_at (doc pg2) bc \<noteq> None"
    using h closest_children_at by blast
  have ch: "children_at ?d3 bc = Some [?nb]"
    by (rule children_at_set_children [OF valid])
  have below: "node_at ?d3 (bc @ [0]) = Some ?nb"
    using valid node_at_set_children_below [of bc "[?nb]" "doc pg2" 0 "[]"] by auto
  note button = new_button_facts [OF below]
  have frame1: "\<forall>q. \<not> strict_prefix bc q \<longrightarrow>
                     elem_at ?d3 q = elem_at (doc pg2) q \<and> text_at ?d3 q = text_at (doc pg2) q"
    by (simp add: elem_at_set_children text_at_set_children)
  have frame2: "\<forall>q. \<not> prefix bc q \<and> \<not> prefix q bc \<longrightarrow> node_at ?d3 q = node_at (doc pg2) q"
    by (simp add: node_at_set_children_apart)
  show "effects (click_listener_resume parse w (Http True st (Json data)) pg2) = effects pg2"
    unfolding r by simp
  show "let d3 = doc (click_listener_resume parse w (Http True st (Json data)) pg2)
               in map_option length (children_at d3 bc) = Some 1 \<and>
                  map_option tag (elem_at d3 (bc @ [0])) = Some ''button'' \<and>
                  matches d3 ''btn-remove-from-collection'' (bc @ [0]) = (a = Add) \<and>
                  matches d3 ''btn-add-to-collection'' (bc @ [0]) = (a = Remove) \<and>
                  attr_at d3 (bc @ [0]) ''data-collection-id'' = Some cId \<and>
                  attr_at d3 (bc @ [0]) ''data-article-id'' = Some aId \<and>
                  attr_at d3 (bc @ [0]) ''title'' =
                    Some ((if a = Add then ''Remove from '' else ''Add to '') @ textContent n) \<and>
                  (\<forall>q. \<not> strict_prefix bc q \<longrightarrow>
                       elem_at d3 q = elem_at (doc pg2) q \<and> text_at d3 q = text_at (doc pg2) q) \<and>
                  (\<forall>q. \<not> prefix bc q \<and> \<not> prefix q bc \<longrightarrow> node_at d3 q = node_at (doc pg2) q)"
    unfolding r Let_def using ch button frame1 frame2 by simp
qed

theorem action_success_swaps_button_witness:
  "reads_templates read_html \<and> value_safe ''3'' \<and> value_safe ''8'' \<and>
   value_safe ''Reading'' \<and>
   (matches (doc sample_page) ''btn-add-to-collection'' [3, 1, 0, 0, 0, 1, 0] \<or>
    matches (doc sample_page) ''btn-remove-from-collection'' [3, 1, 0, 0, 0, 1, 0]) \<and>
   attr_at (doc sample_page) [3, 1, 0, 0, 0, 1, 0] ''data-collection-id'' = Some ''3'' \<and>
   attr_at (doc sample_page) [3, 1, 0, 0, 0, 1, 0] ''data-article-id'' = Some ''8'' \<and>
   closest (doc sample_page) ''collection-action-button'' [3, 1, 0, 0, 0, 1, 0] = Some [3, 1, 0, 0, 0, 1] \<and>
   closest (doc sample_page) ''collection-entry'' [3, 1, 0, 0, 0, 1] = Some [3, 1, 0, 0, 0] \<and>
   querySelector_in (doc sample_page) [3, 1, 0, 0, 0] span_first_child = Some [3, 1, 0, 0, 0, 0] \<and>
   map_option textContent (node_at (doc sample_page) [3, 1, 0, 0, 0, 0]) = Some ''Reading'' \<and>
   suspended (click_listener [3, 1, 0, 0, 0, 1, 0] sample_page) =
     Some \<lparr>target = [3, 1, 0, 0, 0, 1, 0], aw_action = Add, collectionId = Some ''3'',
           aw_articleId = Some ''8''\<rparr> \<and>
   effects (outcome_page (click_listener [3, 1, 0, 0, 0, 1, 0] sample_page)) =
     [PreventDefault,
      Fetch \<lparr>http_method = ''POST'', url = ''/collection/3/add_article'',
             headers = [(''Content-Type'', ''application/json''),
                        (''X-Requested-With'', ''XMLHttpRequest'')],
             body = Some (JObject [(''article_id'', JString ''8'')])\<rparr>] \<and>
   matches (doc (click_listener_resume read_html
        \<lparr>target = [3, 1, 0, 0, 0, 1, 0], aw_action = Add, collectionId = Some ''3'',
          aw_articleId = Some ''8''\<rparr>
        (Http True 200 (Json \<lparr>status = ''ok'', message = None, collections = None\<rparr>)) sample_page))
      ''btn-remove-from-collection'' [3, 1, 0, 0, 0, 1, 0] \<and>
   attr_at (doc (click_listener_resume read_html
        \<lparr>target = [3, 1, 0, 0, 0, 1, 0], aw_action = Add, collectionId = Some ''3'',
          aw_articleId = Some ''8''\<rparr>
        (Http True 200 (Json \<lparr>status = ''ok'', message = None, collections = None\<rparr>)) sample_page))
      [3, 1, 0, 0, 0, 1, 0] ''title'' = Some ''Remove from Reading'' \<and>
   node_at (doc (click_listener_resume read_html
        \<lparr>target = [3, 1, 0, 0, 0, 1, 0], aw_action = Add, collectionId = Some ''3'',
          aw_articleId = Some ''8''\<rparr>
        (Http True 200 (Json \<lparr>status = ''ok'', message = None, collections = None\<rparr>)) sample_page))
      [3, 1, 0, 0, 1] = node_at (doc sample_page) [3, 1, 0, 0, 1]"
proof -
  let ?tg = "[3, 1, 0, 0, 0, 1, 0] :: path"
  let ?w = "\<lparr>target = ?tg, aw_action = Add, collectionId = Some ''3'', aw_articleId = Some ''8''\<rparr>"
  let ?data = "\<lparr>status = ''ok'', message = None, collections = None\<rparr>"
  have m: "matches (doc sample_page) ''btn-add-to-collection'' ?tg \<or>
           matches (doc sample_page) ''btn-remove-from-collection'' ?tg" by code_simp
  have act: "Add = (if matches (doc sample_page) ''btn-remove-from-collection'' ?tg then Remove else Add)"
    by code_simp
  have c: "attr_at (doc sample_page) ?tg ''data-collection-id'' = Some ''3''" by code_simp
  have a: "attr_at (doc sample_page) ?tg ''data-article-id'' = Some ''8''" by code_simp
  have bc: "closest (doc sample_page) ''collection-action-button'' ?tg = Some [3, 1, 0, 0, 0, 1]"
    by code_simp
  have ce: "closest (doc sample_page) ''collection-entry'' [3, 1, 0, 0, 0, 1] = Some [3, 1, 0, 0, 0]"
    by code_simp
  have sp: "querySelector_in (doc sample_page) [3, 1, 0, 0, 0] span_first_child = Some [3, 1, 0, 0, 0, 0]"
    by code_simp
  have n: "node_at (doc sample_page) [3, 1, 0, 0, 0, 0] = Some (el ''span'' [] [] [Text ''Reading''])"
    by code_simp
  have tc: "textContent (el ''span'' [] [] [Text ''Reading'']) = ''Reading''" by code_simp
  have st: "status ?data = ''ok''" by simp
  note rt = reads_templates_read_html
  have v3: "value_safe ''3''" and v8: "value_safe ''8''" and vr: "value_safe ''Reading''"
    by code_simp+
  have vt: "value_safe (textContent (el ''span'' [] [] [Text ''Reading'']))"
    unfolding tc by (rule vr)
  have e: "effects sample_page = []" by (simp add: sample_page_def)
  note T = action_success_swaps_button [OF rt v3 v8 m c a act refl [of ?w]]
  from T [THEN conjunct1] e
  have start: "suspended (click_listener ?tg sample_page) = Some ?w \<and>
     effects (outcome_page (click_listener ?tg sample_page)) =
     [PreventDefault,
      Fetch \<lparr>http_method = ''POST'', url = ''/collection/3/add_article'',
             headers = [(''Content-Type'', ''application/json''),
                        (''X-Requested-With'', ''XMLHttpRequest'')],
             body = Some (JObject [(''article_id'', JString ''8'')])\<rparr>]"
    by simp
  have h: "status ?data = ''ok'' \<and>
      closest (doc sample_page) ''collection-action-button'' ?tg = Some [3, 1, 0, 0, 0, 1] \<and>
      closest (doc sample_page) ''collection-entry'' [3, 1, 0, 0, 0, 1] = Some [3, 1, 0, 0, 0] \<and>
      querySelector_in (doc sample_page) [3, 1, 0, 0, 0] span_first_child = Some [3, 1, 0, 0, 0, 0] \<and>
      node_at (doc sample_page) [3, 1, 0, 0, 0, 0] = Some (el ''span'' [] [] [Text ''Reading'']) \<and>
      value_safe (textContent (el ''span'' [] [] [Text ''Reading'']))"
    using st bc ce sp n vt by blast
  have p: "\<not> prefix [3, 1, 0, 0, 0, 1] [3, 1, 0, 0, 1 :: nat] \<and>
           \<not> prefix [3, 1, 0, 0, 1 :: nat] [3, 1, 0, 0, 0, 1]" by simp
  note T2 = T [THEN conjunct2, rule_format, OF h, of 200, THEN conjunct2, unfolded Let_def]
  have f3: "node_at (doc (click_listener_resume read_html ?w (Http True 200 (Json ?data)) sample_page)) [3, 1, 0, 0, 1]
          = node_at (doc sample_page) [3, 1, 0, 0, 1]"
    using T2 p by blast
  from T2 f3
  have fin: "matches (doc (click_listener_resume read_html ?w (Http True 200 (Json ?data)) sample_page))
          ''btn-remove-from-collection'' ?tg \<and>
       attr_at (doc (click_listener_resume read_html ?w (Http True 200 (Json ?data)) sample_page)) ?tg ''title''
          = Some ''Remove from Reading'' \<and>
       node_at (doc (click_listener_resume read_html ?w (Http True 200 (Json ?data)) sample_page)) [3, 1, 0, 0, 1]
          = node_at (doc sample_page) [3, 1, 0, 0, 1]"
    by (simp add: Let_def tc)
  from rt v3 v8 vr m c a bc ce sp n tc start fin show ?thesis by simp
qed

section \<open>A failed load\<close>






text \<open>
  C10. When the POST of an add or remove click succeeds (HTTP ok, body status \<open>ok\<close>) and
  the clicked button then has no ancestor of class \<open>collection-action-button\<close> (and is none
  itself), the listener changes nothing: the document and the effects stay as they are,
  with no alert and no logged error.
\<close>

theorem success_without_container_is_noop:
  assumes "matches (doc pg) ''btn-add-to-collection'' tg \<or>
           matches (doc pg) ''btn-remove-from-collection'' tg"
    and "status data = ''ok''"
    and "closest (doc pg2) ''collection-action-button'' tg = None"
  shows "\<exists>pg1 w. click_listener tg pg = Await pg1 w \<and> doc pg1 = doc pg \<and> target w = tg \<and>
           click_listener_resume parse w (Http True st (Json data)) pg2 = pg2"
  unfolding click_listener_action [OF assms(1)]
  using click_resume_no_container [OF assms(2), of pg2 _ parse st] assms(3) by simp

theorem success_without_container_is_noop_witness:
  "(matches (doc stray_button_page) ''btn-add-to-collection'' [0] \<or>
    matches (doc stray_button_page) ''btn-remove-from-collection'' [0]) \<and>
   status \<lparr>status = ''ok'', message = None, collections = None\<rparr> = ''ok'' \<and>
   closest (doc stray_button_page) ''collection-action-button'' [0] = None \<and>
   (\<exists>pg1 w. click_listener [0] stray_button_page = Await pg1 w \<and> doc pg1 = doc stray_button_page \<and>
      target w = [0] \<and>
      click_listener_resume read_html w
        (Http True 200 (Json \<lparr>status = ''ok'', message = None, collections = None\<rparr>)) stray_button_page
        = stray_button_page)"
proof -
  have m: "matches (doc stray_button_page) ''btn-add-to-collection'' [0] \<or>
           matches (doc stray_button_page) ''btn-remove-from-collection'' [0]" by code_simp
  have s: "status \<lparr>status = ''ok'', message = None, collections = None\<rparr> = ''ok''" by simp
  have c: "closest (doc stray_button_page) ''collection-action-button'' [0] = None" by code_simp
  from success_without_container_is_noop [OF m s c, where st = 200 and parse = read_html] m s c show ?thesis by blast
qed

section \<open>Clicks that are no action\<close>

text \<open>
  C7. For a click whose target is neither an add button nor a remove button: when the
  target is in no element of class \<open>collections-menu\<close>, every such element gets display
  \<open>none\<close> and nothing else changes in the document; when it is in one (or is one), the
  page stays exactly as it is. Either way the listener ends without a request.
\<close>

theorem other_click_closes_or_keeps:
  assumes "\<not> matches (doc pg) ''btn-add-to-collection'' tg"
    and "\<not> matches (doc pg) ''btn-remove-from-collection'' tg"
  shows "(closest (doc pg) ''collections-menu'' tg = None \<longrightarrow>
            (\<exists>pg'. click_listener tg pg = Done pg' \<and>
                   effects pg' = effects pg \<and>
                   (\<forall>q. matches (doc pg') ''collections-menu'' q = matches (doc pg) ''collections-menu'' q) \<and>
                   (\<forall>q. matches (doc pg) ''collections-menu'' q \<longrightarrow>
                          display_at (doc pg') q = Some ''none'') \<and>
                   (\<forall>q. \<not> matches (doc pg) ''collections-menu'' q \<longrightarrow>
                          elem_at (doc pg') q = elem_at (doc pg) q) \<and>
                   strip (doc pg') = strip (doc pg))) \<and>
         (closest (doc pg) ''collections-menu'' tg \<noteq> None \<longrightarrow> click_listener tg pg = Done pg)"
proof -
  have "display_at (hide_all (doc pg)) q = Some ''none''" if "matches (doc pg) ''collections-menu'' q" for q
    using that hide_all_hidden [of "doc pg" q] by (simp add: hide_all_menus)
  then show ?thesis
    using assms
    by (simp add: click_listener_def Let_def hide_all_menus elem_at_hide_all strip_hide_all)
qed

theorem other_click_closes_or_keeps_witness:
  "\<not> matches (doc sample_page) ''btn-add-to-collection'' [0] \<and>
   \<not> matches (doc sample_page) ''btn-remove-from-collection'' [0] \<and>
   closest (doc sample_page) ''collections-menu'' [0] = None \<and>
   matches (doc sample_page) ''collections-menu'' [3, 1] \<and>
   display_at (doc sample_page) [3, 1] = Some ''block'' \<and>
   (\<exists>pg'. click_listener [0] sample_page = Done pg' \<and> display_at (doc pg') [3, 1] = Some ''none'') \<and>
   \<not> matches (doc sample_page) ''btn-add-to-collection'' [3, 1, 0, 0, 0, 0] \<and>
   \<not> matches (doc sample_page) ''btn-remove-from-collection'' [3, 1, 0, 0, 0, 0] \<and>
   closest (doc sample_page) ''collections-menu'' [3, 1, 0, 0, 0, 0] = Some [3, 1] \<and>
   click_listener [3, 1, 0, 0, 0, 0] sample_page = Done sample_page"
proof -
  have a: "\<not> matches (doc sample_page) ''btn-add-to-collection'' [0]"
    and b: "\<not> matches (doc sample_page) ''btn-remove-from-collection'' [0]"
    and c: "closest (doc sample_page) ''collections-menu'' [0] = None"
    and m: "matches (doc sample_page) ''collections-menu'' [3, 1]"
    and d: "display_at (doc sample_page) [3, 1] = Some ''block''"
    and a': "\<not> matches (doc sample_page) ''btn-add-to-collection'' [3, 1, 0, 0, 0, 0]"
    and b': "\<not> matches (doc sample_page) ''btn-remove-from-collection'' [3, 1, 0, 0, 0, 0]"
    and c': "closest (doc sample_page) ''collections-menu'' [3, 1, 0, 0, 0, 0] = Some [3, 1]"
    by code_simp+
  from other_click_closes_or_keeps [OF a b] c m
  have 1: "\<exists>pg'. click_listener [0] sample_page = Done pg' \<and> display_at (doc pg') [3, 1] = Some ''none''"
    by blast
  from other_click_closes_or_keeps [OF a' b'] c'
  have 2: "click_listener [3, 1, 0, 0, 0, 0] sample_page = Done sample_page" by simp
  from a b c m d 1 a' b' c' 2 show ?thesis by blast
qed

section \<open>The date filter on page load\<close>

text \<open>
  C9, as the claim states it, fails: on a page that has the \<open>start_date\<close> input with a
  value and no \<open>end_date\<close> input, the handler toggles nothing and the region stays
  collapsed.
\<close>

theorem one_date_input_counterexample:
  "getElementById ''start_date'' (doc start_only_page) = Some [1, 0] \<and>
   truthy (attr_at (doc start_only_page) [1, 0] ''value'') \<and>
   getElementById ''end_date'' (doc start_only_page) = None \<and>
   getElementById ''date-filter-content'' (doc start_only_page) = Some [1] \<and>
   domContentLoaded start_only_page = start_only_page \<and>
   display_at (doc (domContentLoaded start_only_page)) [1] = Some [] \<and>
   map_option textContent (node_at (doc (domContentLoaded start_only_page)) [0, 0]) = Some ''+''"
  by code_simp

text \<open>
  C9, amended. On DOMContentLoaded, when both the \<open>start_date\<close> and the \<open>end_date\<close> input
  are present and either holds a non-empty value, \<open>toggleDateFilters\<close> runs: with the
  region's inline display \<open>none\<close> or empty, and the toggle icon present and not around
  the region, the region's display becomes \<open>block\<close> and the icon's text \<open>-\<close>. When
  either input is absent, or both values are empty, the handler changes nothing.
\<close>

theorem date_filter_auto_expand:
  assumes "getElementById ''date-filter-content'' (doc pg) = Some c"
    and "display_at (doc pg) c = Some ''none'' \<or> display_at (doc pg) c = Some ''''"
    and "querySelector_in (doc pg) [] toggle_icon_sel = Some i"
    and "\<not> strict_prefix i c"
  shows "(\<forall>s e. getElementById ''start_date'' (doc pg) = Some s \<and>
                getElementById ''end_date'' (doc pg) = Some e \<and>
                (truthy (attr_at (doc pg) s ''value'') \<or> truthy (attr_at (doc pg) e ''value'')) \<longrightarrow>
                domContentLoaded pg = toggleDateFilters pg \<and>
                effects (domContentLoaded pg) = effects pg \<and>
                display_at (doc (domContentLoaded pg)) c = Some ''block'' \<and>
                children_at (doc (domContentLoaded pg)) i = Some [Text ''-'']) \<and>
         (getElementById ''start_date'' (doc pg) = None \<or>
          getElementById ''end_date'' (doc pg) = None \<longrightarrow> domContentLoaded pg = pg) \<and>
         (\<forall>s e. getElementById ''start_date'' (doc pg) = Some s \<and>
                getElementById ''end_date'' (doc pg) = Some e \<and>
                \<not> truthy (attr_at (doc pg) s ''value'') \<and> \<not> truthy (attr_at (doc pg) e ''value'') \<longrightarrow>
                domContentLoaded pg = pg)"
proof -
  let ?d1 = "set_display c ''block'' (doc pg)"
  let ?pg' = "pg\<lparr>doc := set_children i [Text ''-''] ?d1\<rparr>"
  have t: "toggleDateFilters pg = ?pg'"
    using assms(1,2,3) by (auto simp: toggleDateFilters_def Let_def)
  have cv: "elem_at (doc pg) c \<noteq> None" by (rule getElementById_elem [OF assms(1)])
  have d: "display_at (doc ?pg') c = Some ''block''"
    using assms(4) display_at_set_display [OF cv, of "''block''"]
    by (simp add: display_at_def elem_at_set_children)
  from querySelector_in_Some [OF assms(3)] have "matches (doc pg) ''toggle-icon'' i"
    by (simp add: toggle_icon_sel_def)
  then have "matches ?d1 ''toggle-icon'' i" by (simp add: set_display_menus)
  then have ch: "children_at (doc ?pg') i = Some [Text ''-'']"
    using children_at_set_children [OF matches_children_at] by simp
  show ?thesis
    unfolding domContentLoaded_def Let_def t using d ch
    by (auto split: option.splits)
qed

theorem date_filter_auto_expand_witness:
  "getElementById ''date-filter-content'' (doc sample_page) = Some [1] \<and>
   (display_at (doc sample_page) [1] = Some ''none'' \<or> display_at (doc sample_page) [1] = Some '''') \<and>
   querySelector_in (doc sample_page) [] toggle_icon_sel = Some [0, 0] \<and>
   \<not> strict_prefix [0, 0 :: nat] [1] \<and>
   getElementById ''start_date'' (doc sample_page) = Some [1, 0] \<and>
   getElementById ''end_date'' (doc sample_page) = Some [1, 1] \<and>
   truthy (attr_at (doc sample_page) [1, 0] ''value'') \<and>
   display_at (doc (domContentLoaded sample_page)) [1] = Some ''block'' \<and>
   children_at (doc (domContentLoaded sample_page)) [0, 0] = Some [Text ''-'']"
proof -
  have c: "getElementById ''date-filter-content'' (doc sample_page) = Some [1]" by code_simp
  have d: "display_at (doc sample_page) [1] = Some ''none'' \<or> display_at (doc sample_page) [1] = Some ''''"
    by code_simp
  have i: "querySelector_in (doc sample_page) [] toggle_icon_sel = Some [0, 0]" by code_simp
  have p: "\<not> strict_prefix [0, 0 :: nat] [1]" by simp
  have s: "getElementById ''start_date'' (doc sample_page) = Some [1, 0]" by code_simp
  have e: "getElementById ''end_date'' (doc sample_page) = Some [1, 1]" by code_simp
  have v: "truthy (attr_at (doc sample_page) [1, 0] ''value'')" by code_simp
  from date_filter_auto_expand [OF c d i p, THEN conjunct1, rule_format, of "[1, 0]" "[1, 1]"] s e v
  have "display_at (doc (domContentLoaded sample_page)) [1] = Some ''block'' \<and>
        children_at (doc (domContentLoaded sample_page)) [0, 0] = Some [Text ''-'']"
    by blast
  with c d i p s e v show ?thesis by blast
qed

end
